theory Spec2Isabelle
  imports Main "HOL-Library.AList" "HOL-Library.Sublist"
begin

section \<open>The CORD-19 data explorer (src/app/app.py)\<close>

text \<open>
  The script loads a CSV file of paper metadata into a pandas DataFrame, cleans it
  (\<open>load_data\<close>), cuts it down to a range of years (\<open>df_filtered\<close>) and tabulates the
  most frequent words of the titles (\<open>all_words\<close>, \<open>common_words\<close>). The definitions
  below follow the script line by line. The library calls it makes (pandas,
  \<open>str.split\<close>, \<open>collections.Counter\<close>) are written out as HOL functions over lists.
\<close>

subsection \<open>Python strings\<close>

text \<open>
  A \<open>char\<close> stands for a code point below 256. \<open>isspace\<close> is the whitespace test that
  \<open>str.split()\<close> uses on these code points: TAB to CR, FS to US, the blank, NEL and the
  no-break space.
\<close>

definition isspace :: "char \<Rightarrow> bool" where
  "isspace c =
     (let n = (of_char c :: nat)
      in (9 \<le> n \<and> n \<le> 13) \<or> (28 \<le> n \<and> n \<le> 32) \<or> n = 133 \<or> n = 160)"

text \<open>
  \<open>x.split()\<close> with no separator: skip the whitespace, cut the next run of
  non-whitespace characters off as one word, go on with the rest.
\<close>

function split :: "string \<Rightarrow> string list" where
  "split s =
     (case dropWhile isspace s of
        [] \<Rightarrow> []
      | c # cs \<Rightarrow> takeWhile (\<lambda>x. \<not> isspace x) (c # cs)
                 # split (dropWhile (\<lambda>x. \<not> isspace x) (c # cs)))"
  by pat_completeness auto
termination
proof (relation "measure length", goal_cases)
  case 1
  show ?case by simp
next
  case (2 s c cs)
  have "\<not> isspace c"
    using 2 hd_dropWhile [of isspace s] by auto
  then have "length (dropWhile (\<lambda>x. \<not> isspace x) (c # cs)) \<le> length cs"
    by (simp add: length_dropWhile_le)
  moreover have "length (c # cs) \<le> length s"
    using length_dropWhile_le [of isspace s] 2 by simp
  ultimately show ?case
    by simp
qed

declare split.simps [simp del]

text \<open>\<open>str.lower()\<close> on code points below 256: A to Z and the accented capitals.\<close>

definition lower_char :: "char \<Rightarrow> char" where
  "lower_char c =
     (let n = (of_char c :: nat)
      in if (65 \<le> n \<and> n \<le> 90) \<or> (192 \<le> n \<and> n \<le> 222 \<and> n \<noteq> 215)
         then char_of (n + 32) else c)"

definition lower :: "string \<Rightarrow> string" where
  "lower s = map lower_char s"

text \<open>\<open>sep.join(xs)\<close>.\<close>

fun join :: "string \<Rightarrow> string list \<Rightarrow> string" where
  "join sep [] = []"
| "join sep [x] = x"
| "join sep (x # y # ys) = x @ sep @ join sep (y # ys)"

subsection \<open>DataFrames\<close>

text \<open>
  A cell of a DataFrame: a missing value (\<open>NaN\<close>), a missing date (\<open>NaT\<close>), a Python
  string, a number or boolean that \<open>read_csv\<close> made out of the text of a field
  (\<open>Scalar\<close>, kept with that text), an integer, or a timestamp.
\<close>

datatype timestamp = Timestamp int nat nat

fun year_of :: "timestamp \<Rightarrow> int" where
  "year_of (Timestamp y m d) = y"

datatype cell = NaN | NaT | Str string | Scalar string | Num int | Date timestamp

type_synonym row = "(string \<times> cell) list"

record frame =
  columns :: "string list"
  rows :: "row list"

datatype error =
  FileNotFoundError | PermissionError | UnicodeDecodeError | EmptyDataError
  | KeyError string | AttributeError | TypeError | ValueError

text \<open>The value of a row in a column.\<close>

definition at :: "row \<Rightarrow> string \<Rightarrow> cell" where
  "at r c = (case map_of r c of Some v \<Rightarrow> v | None \<Rightarrow> NaN)"

text \<open>\<open>df[c]\<close>: the column as a list, \<open>KeyError\<close> when the frame has no such column.\<close>

definition getitem :: "string \<Rightarrow> frame \<Rightarrow> error + cell list" where
  "getitem c df =
     (if c \<in> set (columns df) then Inr (map (\<lambda>r. at r c) (rows df)) else Inl (KeyError c))"

text \<open>\<open>df[c] = vs\<close>: overwrite the column in place, or append it as the last one.\<close>

definition setitem :: "string \<Rightarrow> cell list \<Rightarrow> frame \<Rightarrow> frame" where
  "setitem c vs df =
     \<lparr>columns = (if c \<in> set (columns df) then columns df else columns df @ [c]),
      rows = map2 (\<lambda>r v. AList.update c v r) (rows df) vs\<rparr>"

text \<open>
  An operation that pandas applies to a column value by value and that raises at the
  first value it does not accept: \<open>f\<close> gives \<open>None\<close> at such a value, \<open>e\<close> is the error.
\<close>

fun elementwise :: "error \<Rightarrow> ('a \<Rightarrow> 'b option) \<Rightarrow> 'a list \<Rightarrow> error + 'b list" where
  "elementwise e f [] = Inr []"
| "elementwise e f (x # xs) =
     (case f x of
        None \<Rightarrow> Inl e
      | Some y \<Rightarrow> (case elementwise e f xs of Inl e' \<Rightarrow> Inl e' | Inr ys \<Rightarrow> Inr (y # ys)))"

definition isna :: "cell \<Rightarrow> bool" where
  "isna v = (v = NaN \<or> v = NaT)"

definition fillna :: "string \<Rightarrow> cell list \<Rightarrow> cell list" where
  "fillna s vs = map (\<lambda>v. if isna v then Str s else v) vs"

text \<open>
  \<open>df.dropna(subset=cs)\<close>: \<open>KeyError\<close> when a column of \<open>cs\<close> is missing, otherwise the
  rows that have a value in every column of \<open>cs\<close>, in their order.
\<close>

definition dropna :: "string list \<Rightarrow> frame \<Rightarrow> error + frame" where
  "dropna cs df =
     (case filter (\<lambda>c. c \<notin> set (columns df)) cs of
        m # ms \<Rightarrow> Inl (KeyError m)
      | [] \<Rightarrow> Inr (df\<lparr>rows := filter (\<lambda>r. list_all (\<lambda>c. \<not> isna (at r c)) cs) (rows df)\<rparr>))"

subsection \<open>What the script takes from pandas\<close>

text \<open>
  Three behaviours of pandas are parameters of the model:
  \<^item> \<open>inferred texts\<close>: whether \<open>read_csv\<close> converts a column whose non-missing fields
    have these texts to a numeric or boolean dtype (otherwise the fields stay strings);
  \<^item> \<open>date_error col\<close>: the exception that \<open>to_datetime\<close> and \<open>.dt.year\<close> at lines 20
    and 21 raise on the column \<open>col\<close>, for instance on dates with different UTC offsets,
    \<open>None\<close> when \<open>to_datetime\<close> gives a column of timestamps;
  \<^item> \<open>parse_datetime col v\<close>: the timestamp that \<open>to_datetime\<close> then reads from the value
    \<open>v\<close> of the column \<open>col\<close>, \<open>None\<close> when it cannot parse it.
\<close>

record pandas =
  inferred :: "string list \<Rightarrow> bool"
  date_error :: "cell list \<Rightarrow> error option"
  parse_datetime :: "cell list \<Rightarrow> cell \<Rightarrow> timestamp option"

text \<open>The texts that \<open>read_csv\<close> reads as a missing value by default.\<close>

definition na_values :: "string list" where
  "na_values =
     ['''', ''#N/A'', ''#N/A N/A'', ''#NA'', ''-1.#IND'', ''-1.#QNAN'', ''-NaN'', ''-nan'',
      ''1.#IND'', ''1.#QNAN'', ''<NA>'', ''N/A'', ''NA'', ''NULL'', ''NaN'', ''None'',
      ''n/a'', ''nan'', ''null'']"

text \<open>
  The file behind the path: missing, not readable, not UTF-8, or its lines, each cut
  into its fields as the \<open>csv\<close> reader of the python engine cuts them.
\<close>

datatype csv_file = Missing | Unreadable | Undecodable | Lines "string list list"

text \<open>
  \<open>skip_blank_lines\<close>, on by default: a line without a field, or with one field of
  whitespace only, is dropped before anything else looks at it.
\<close>

definition blank :: "string list \<Rightarrow> bool" where
  "blank l = (case l of [] \<Rightarrow> True | [s] \<Rightarrow> list_all isspace s | _ \<Rightarrow> False)"

text \<open>
  The names of the columns. An empty name of the header becomes \<open>Unnamed: i\<close>. Then a
  name that has occurred before gets the suffix \<open>.c\<close>, with the least \<open>c\<close> from its
  count on that gives a name not in the list; the named columns are renamed before the
  unnamed ones.
\<close>

function show_nat :: "nat \<Rightarrow> string" where
  "show_nat n =
     (if n < 10 then [char_of (48 + n)] else show_nat (n div 10) @ [char_of (48 + n mod 10)])"
  by pat_completeness auto
termination
  by (relation "measure id") auto

declare show_nat.simps [simp del]

definition unnamed :: "string list \<Rightarrow> string list" where
  "unnamed h = map (\<lambda>i. if h ! i = [] then ''Unnamed: '' @ show_nat i else h ! i) [0..<length h]"

definition count_of :: "(string \<times> nat) list \<Rightarrow> string \<Rightarrow> nat" where
  "count_of counts c = (case map_of counts c of Some k \<Rightarrow> k | None \<Rightarrow> 0)"

text \<open>
  The search for the suffix looks at no more candidates than the list has names, which
  is enough to find one that is not in it.
\<close>

fun fresh_suffix :: "nat \<Rightarrow> string list \<Rightarrow> string \<Rightarrow> nat \<Rightarrow> nat" where
  "fresh_suffix 0 cols old c = c"
| "fresh_suffix (Suc fuel) cols old c =
     (if old @ ''.'' @ show_nat c \<in> set cols then fresh_suffix fuel cols old (Suc c) else c)"

definition dedup_step ::
  "string list \<times> (string \<times> nat) list \<Rightarrow> nat \<Rightarrow> string list \<times> (string \<times> nat) list" where
  "dedup_step s i =
     (let cols = fst s; counts = snd s; col = cols ! i; cur = count_of counts col
      in if 0 < cur
         then (let c = fresh_suffix (length cols) cols col cur;
                   new = col @ ''.'' @ show_nat c
               in (cols[i := new], AList.update new 1 (AList.update col (Suc c) counts)))
         else (cols, AList.update col 1 counts))"

definition mangle :: "string list \<Rightarrow> string list" where
  "mangle h =
     (let named = filter (\<lambda>i. h ! i \<noteq> []) [0..<length h];
          blanks = filter (\<lambda>i. h ! i = []) [0..<length h]
      in fst (foldl dedup_step (unnamed h, []) (named @ blanks)))"

text \<open>
  The row labels. The first data line decides how many leading fields of each line are
  the index and not a column: its fields beyond the width \<open>n\<close> of the header, if it has
  any. When the second data line is longer than the first by \<open>n\<close>, the first is a line
  of index names: it is dropped, and the index has as many fields as it has names.
\<close>

definition index_layout :: "nat \<Rightarrow> string list list \<Rightarrow> nat \<times> string list list" where
  "index_layout n ds =
     (case ds of
        [] \<Rightarrow> (0, [])
      | [d1] \<Rightarrow> (length d1 - n, [d1])
      | d1 # d2 # rest \<Rightarrow>
          if length d2 = length d1 + n then (length d1, d2 # rest)
          else (length d1 - n, d1 # d2 # rest))"

text \<open>
  \<open>pd.read_csv(file_path, engine='python', on_bad_lines='skip', encoding='utf-8')\<close>.
  The first line that is not blank is the header. With \<open>k\<close> index fields and a header of
  \<open>n\<close> names, a line with more than \<open>n + k\<close> fields is a bad line and is skipped; a
  shorter line is filled up with missing values. The index fields are not columns of
  the frame. A field whose text is in \<open>na_values\<close> is \<open>NaN\<close>; the other fields of a
  column are strings, or scalars when the column is inferred to be numeric or boolean.
\<close>

definition pad :: "nat \<Rightarrow> string list \<Rightarrow> string list" where
  "pad n l = l @ replicate (n - length l) ''''"

definition good_lines :: "nat \<Rightarrow> string list list \<Rightarrow> string list list" where
  "good_lines w ls = map (pad w) (filter (\<lambda>l. length l \<le> w) ls)"

definition column_texts :: "string list list \<Rightarrow> nat \<Rightarrow> string list" where
  "column_texts ls j = filter (\<lambda>s. s \<notin> set na_values) (map (\<lambda>l. l ! j) ls)"

definition convert :: "bool \<Rightarrow> string \<Rightarrow> cell" where
  "convert num s = (if s \<in> set na_values then NaN else if num then Scalar s else Str s)"

definition read_csv :: "pandas \<Rightarrow> csv_file \<Rightarrow> error + frame" where
  "read_csv P f =
     (case f of
        Missing \<Rightarrow> Inl FileNotFoundError
      | Unreadable \<Rightarrow> Inl PermissionError
      | Undecodable \<Rightarrow> Inl UnicodeDecodeError
      | Lines ls \<Rightarrow>
          (case filter (\<lambda>l. \<not> blank l) ls of
             [] \<Rightarrow> Inl EmptyDataError
           | header # ds \<Rightarrow>
               (let n = length header;
                    k = fst (index_layout n ds);
                    good = map (drop k) (good_lines (n + k) (snd (index_layout n ds)));
                    nums = map (\<lambda>j. inferred P (column_texts good j)) [0..<n];
                    names = mangle header
                in Inr \<lparr>columns = names,
                        rows = map (\<lambda>l. zip names (map2 convert nums l)) good\<rparr>)))"

text \<open>
  \<open>pd.to_datetime(col, errors='coerce')\<close>: what does not parse becomes \<open>NaT\<close>; a
  column that pandas refuses as a whole raises.
\<close>

definition coerce :: "pandas \<Rightarrow> cell list \<Rightarrow> cell \<Rightarrow> cell" where
  "coerce P col v =
     (if isna v then NaT
      else (case parse_datetime P col v of None \<Rightarrow> NaT | Some t \<Rightarrow> Date t))"

definition to_datetime :: "pandas \<Rightarrow> cell list \<Rightarrow> error + cell list" where
  "to_datetime P col =
     (case date_error P col of Some e \<Rightarrow> Inl e | None \<Rightarrow> Inr (map (coerce P col) col))"

text \<open>
  \<open>col.dt.year\<close>: the year of a timestamp, \<open>NaN\<close> for \<open>NaT\<close>; \<open>AttributeError\<close> when the
  column holds anything else.
\<close>

fun year_cell :: "cell \<Rightarrow> cell option" where
  "year_cell (Date t) = Some (Num (year_of t))"
| "year_cell NaT = Some NaN"
| "year_cell v = None"

definition dt_year :: "cell list \<Rightarrow> error + cell list" where
  "dt_year col = elementwise AttributeError year_cell col"

text \<open>
  \<open>col.apply(lambda x: len(x.split()))\<close>: \<open>AttributeError\<close> at a value that is not a
  string.
\<close>

fun len_split :: "cell \<Rightarrow> cell option" where
  "len_split (Str x) = Some (Num (int (length (split x))))"
| "len_split v = None"

definition apply_len_split :: "cell list \<Rightarrow> error + cell list" where
  "apply_len_split col = elementwise AttributeError len_split col"

subsection \<open>load_data\<close>

text \<open>Lines 20 to 23 of the script: the parsed date, the year, the word count.\<close>

definition derive :: "pandas \<Rightarrow> frame \<Rightarrow> error + frame" where
  "derive P df =
     (case getitem ''publish_time'' df of
        Inl e \<Rightarrow> Inl e
      | Inr pt \<Rightarrow>
          (case to_datetime P pt of
             Inl e \<Rightarrow> Inl e
           | Inr dates \<Rightarrow>
               (let df1 = setitem ''publish_time'' dates df
                in case getitem ''publish_time'' df1 of
                     Inl e \<Rightarrow> Inl e
                   | Inr pt1 \<Rightarrow>
                       (case dt_year pt1 of
                          Inl e \<Rightarrow> Inl e
                        | Inr ys \<Rightarrow>
                            (let df2 = setitem ''year'' ys df1
                             in case getitem ''abstract'' df2 of
                                  Inl e \<Rightarrow> Inl e
                                | Inr ab \<Rightarrow>
                                    (case apply_len_split (fillna '''' ab) of
                                       Inl e \<Rightarrow> Inl e
                                     | Inr ns \<Rightarrow>
                                         Inr (setitem ''abstract_word_count'' ns df2)))))))"

definition load_data :: "pandas \<Rightarrow> csv_file \<Rightarrow> error + frame" where
  "load_data P file_path =
     (case read_csv P file_path of
        Inl e \<Rightarrow> Inl e
      | Inr df \<Rightarrow>
          (case derive P df of
             Inl e \<Rightarrow> Inl e
           | Inr df3 \<Rightarrow> dropna [''title'', ''publish_time''] df3))"

subsection \<open>The year filter\<close>

text \<open>
  \<open>col >= k\<close> and \<open>col <= k\<close> on a column of integers: a missing value compares as
  \<open>False\<close>. The year column that \<open>load_data\<close> builds holds integers and \<open>NaN\<close> only;
  at any other value the comparison stands as \<open>TypeError\<close>.
\<close>

fun compare_cell :: "(int \<Rightarrow> int \<Rightarrow> bool) \<Rightarrow> int \<Rightarrow> cell \<Rightarrow> bool option" where
  "compare_cell cmp k (Num y) = Some (cmp y k)"
| "compare_cell cmp k NaN = Some False"
| "compare_cell cmp k v = None"

definition compare_series :: "(int \<Rightarrow> int \<Rightarrow> bool) \<Rightarrow> cell list \<Rightarrow> int \<Rightarrow> error + bool list" where
  "compare_series cmp col k = elementwise TypeError (compare_cell cmp k) col"

text \<open>\<open>df[mask]\<close>: the rows at which the mask is true.\<close>

definition select :: "bool list \<Rightarrow> frame \<Rightarrow> frame" where
  "select bs df = df\<lparr>rows := map fst (filter snd (zip (rows df) bs))\<rparr>"

text \<open>
  Line 64: \<open>df[(df['year'] >= year_range[0]) & (df['year'] <= year_range[1])]\<close>.
\<close>

definition df_filtered :: "int \<times> int \<Rightarrow> frame \<Rightarrow> error + frame" where
  "df_filtered year_range df =
     (case getitem ''year'' df of
        Inl e \<Rightarrow> Inl e
      | Inr ys \<Rightarrow>
          (case compare_series (\<lambda>y k. y \<ge> k) ys (fst year_range) of
             Inl e \<Rightarrow> Inl e
           | Inr m1 \<Rightarrow>
               (case compare_series (\<lambda>y k. y \<le> k) ys (snd year_range) of
                  Inl e \<Rightarrow> Inl e
                | Inr m2 \<Rightarrow> Inr (select (map2 (\<and>) m1 m2) df))))"

subsection \<open>The top words of the titles\<close>

text \<open>\<open>" ".join(xs)\<close> on a list of cells: \<open>TypeError\<close> at an item that is not a string.\<close>

fun str_cell :: "cell \<Rightarrow> string option" where
  "str_cell (Str s) = Some s"
| "str_cell v = None"

definition strings :: "cell list \<Rightarrow> error + string list" where
  "strings vs = elementwise TypeError str_cell vs"

text \<open>
  Line 122: \<open>" ".join(df_filtered['title'].dropna().tolist()).lower().split()\<close>.
\<close>

definition all_words :: "frame \<Rightarrow> error + string list" where
  "all_words df =
     (case getitem ''title'' df of
        Inl e \<Rightarrow> Inl e
      | Inr ts \<Rightarrow>
          (case strings (filter (\<lambda>v. \<not> isna v) ts) of
             Inl e \<Rightarrow> Inl e
           | Inr ss \<Rightarrow> Inr (split (lower (join '' '' ss)))))"

text \<open>
  \<open>Counter(ws)\<close>: a dict, which keeps its keys in the order of their insertion. Each
  word adds one to its count, a new word enters at the end with count 1.
\<close>

fun incr :: "string \<Rightarrow> (string \<times> int) list \<Rightarrow> (string \<times> int) list" where
  "incr w [] = [(w, 1)]"
| "incr w ((k, c) # kcs) = (if k = w then (k, c + 1) # kcs else (k, c) # incr w kcs)"

definition Counter :: "string list \<Rightarrow> (string \<times> int) list" where
  "Counter ws = foldl (\<lambda>d w. incr w d) [] ws"

text \<open>
  \<open>most_common(n)\<close> is \<open>heapq.nlargest(n, items, key=count)\<close>, which the library
  documents as \<open>sorted(items, key=count, reverse=True)[:n]\<close>: a stable sort, so items of
  equal count stay in the order of the dict.
\<close>

definition most_common :: "nat \<Rightarrow> (string \<times> int) list \<Rightarrow> (string \<times> int) list" where
  "most_common n d = take n (sort_key (\<lambda>kc. - snd kc) d)"

text \<open>Line 123: \<open>Counter(all_words).most_common(20)\<close>.\<close>

definition common_words :: "frame \<Rightarrow> error + (string \<times> int) list" where
  "common_words df =
     (case all_words df of Inl e \<Rightarrow> Inl e | Inr ws \<Rightarrow> Inr (most_common 20 (Counter ws)))"

subsection \<open>The tabulation as the specification words it\<close>

text \<open>
  \<open>top_words(table, field, n)\<close> in the words of the specification: concatenate the field
  over all records, a null as the empty string, with single spaces; lower-case; split on
  whitespace; count the occurrences of each distinct token; return the \<open>n\<close> tokens of
  highest count, tokens of equal count in the order of their first appearance.
\<close>

fun distinct_tokens :: "string list \<Rightarrow> string list" where
  "distinct_tokens [] = []"
| "distinct_tokens (w # ws) = w # removeAll w (distinct_tokens ws)"

definition field_text :: "cell \<Rightarrow> string" where
  "field_text v = (case v of Str s \<Rightarrow> s | _ \<Rightarrow> '''')"

definition token_stream :: "frame \<Rightarrow> string \<Rightarrow> string list" where
  "token_stream table field =
     split (lower (join '' '' (map (\<lambda>r. field_text (at r field)) (rows table))))"

definition top_words_spec :: "frame \<Rightarrow> string \<Rightarrow> nat \<Rightarrow> (string \<times> int) list" where
  "top_words_spec table field n =
     (let ts = token_stream table field
      in take n (sort_key (\<lambda>kc. - snd kc)
                   (map (\<lambda>t. (t, int (count_list ts t))) (distinct_tokens ts))))"

text \<open>
  The number of whitespace-separated tokens of a string, counted without cutting it:
  the number of characters that are not whitespace and stand at the start of the string
  or after a whitespace character. The flag says whether such a position is at hand.
\<close>

fun token_starts :: "bool \<Rightarrow> string \<Rightarrow> nat" where
  "token_starts b [] = 0"
| "token_starts b (c # s) = (if b \<and> \<not> isspace c then 1 else 0) + token_starts (isspace c) s"

definition token_count :: "string \<Rightarrow> nat" where
  "token_count s = token_starts True s"

text \<open>
  The ranking order of the specification: the higher count first, and of two tokens of
  equal count the one that appears first in the token stream \<open>ws\<close>.
\<close>

definition first_index :: "string list \<Rightarrow> string \<Rightarrow> nat" where
  "first_index ws w = length (takeWhile (\<lambda>x. x \<noteq> w) ws)"

definition ranked_before :: "string list \<Rightarrow> string \<times> int \<Rightarrow> string \<times> int \<Rightarrow> bool" where
  "ranked_before ws a b =
     (snd b < snd a \<or> (snd a = snd b \<and> first_index ws (fst a) < first_index ws (fst b)))"

subsection \<open>A row of the table that load_data builds\<close>

text \<open>
  What lines 20 to 23 do to one row: the date column \<open>col\<close> is the \<open>publish_time\<close> column
  that \<open>read_csv\<close> gave.
\<close>

definition word_count :: "cell \<Rightarrow> cell" where
  "word_count v = Num (int (length (split (field_text v))))"

definition year_value :: "cell \<Rightarrow> cell" where
  "year_value v = (case year_cell v of Some y \<Rightarrow> y | None \<Rightarrow> NaN)"

definition derive_row :: "pandas \<Rightarrow> cell list \<Rightarrow> row \<Rightarrow> row" where
  "derive_row P col r =
     (let d = coerce P col (at r ''publish_time'')
      in AList.update ''abstract_word_count'' (word_count (at r ''abstract''))
           (AList.update ''year'' (year_value d) (AList.update ''publish_time'' d r)))"

definition textual :: "cell \<Rightarrow> bool" where
  "textual v = (case v of Str s \<Rightarrow> True | NaN \<Rightarrow> True | NaT \<Rightarrow> True | _ \<Rightarrow> False)"

definition derived_columns :: "string list \<Rightarrow> string list" where
  "derived_columns cs =
     (let cs1 = (if ''year'' \<in> set cs then cs else cs @ [''year''])
      in if ''abstract_word_count'' \<in> set cs1 then cs1 else cs1 @ [''abstract_word_count''])"

text \<open>
  A row of the frame that \<open>read_csv\<close> gave survives the cleaning when its title is not
  null and its \<open>publish_time\<close> parses.
\<close>

definition survives :: "pandas \<Rightarrow> cell list \<Rightarrow> row \<Rightarrow> bool" where
  "survives P col r =
     (\<not> isna (at r ''title'') \<and> \<not> isna (at r ''publish_time'')
      \<and> parse_datetime P col (at r ''publish_time'') \<noteq> None)"

text \<open>The \<open>publish_time\<close> column of a frame.\<close>

definition publish_times :: "frame \<Rightarrow> cell list" where
  "publish_times df = map (\<lambda>r. at r ''publish_time'') (rows df)"

text \<open>A record whose year lies between \<open>a\<close> and \<open>b\<close>.\<close>

definition year_between :: "int \<Rightarrow> int \<Rightarrow> row \<Rightarrow> bool" where
  "year_between a b r = (case at r ''year'' of Num y \<Rightarrow> a \<le> y \<and> y \<le> b | _ \<Rightarrow> False)"

text \<open>A frame with a year column of integers and \<open>NaN\<close>, as \<open>load_data\<close> builds it.\<close>

definition year_column :: "frame \<Rightarrow> bool" where
  "year_column df =
     (''year'' \<in> set (columns df)
      \<and> list_all (\<lambda>r. case at r ''year'' of Num y \<Rightarrow> True | NaN \<Rightarrow> True | _ \<Rightarrow> False) (rows df))"

text \<open>The years of the records of a table.\<close>

definition years :: "frame \<Rightarrow> int list" where
  "years df = List.map_filter (\<lambda>r. case at r ''year'' of Num y \<Rightarrow> Some y | _ \<Rightarrow> None) (rows df)"

subsection \<open>A sample file\<close>

text \<open>
  A parser that reads two dates, and a file of seven lines under its header: a
  complete row, a row without title, a row without abstract, a row whose date does not
  parse, a line with too many fields, a line without its last field and a line that
  stops after the title.
\<close>

definition sample_pandas :: pandas where
  "sample_pandas =
     \<lparr>inferred = (\<lambda>texts. False),
      date_error = (\<lambda>col. None),
      parse_datetime = (\<lambda>col v.
         if v = Str ''2020-03-01'' then Some (Timestamp 2020 3 1)
         else if v = Str ''2019-01-05'' then Some (Timestamp 2019 1 5)
         else None)\<rparr>"

definition sample_lines :: "string list list" where
  "sample_lines =
     [[''Covid study'', ''a  b c'', ''2020-03-01'', ''Lancet''],
      [''NA'', ''x'', ''2020-03-01'', ''BMJ''],
      [''covid Vaccine'', ''NaN'', ''2019-01-05'', ''BMJ''],
      [''Vaccine trial'', ''zz'', ''garbage'', ''Cell''],
      [''Too'', ''many'', ''2020-03-01'', ''fields'', ''here''],
      [''Vaccine trial'', ''one two'', ''2020-03-01''],
      [''Short'']]"

definition sample_file :: csv_file where
  "sample_file = Lines ([''title'', ''abstract'', ''publish_time'', ''journal''] # sample_lines)"

definition sample_table :: frame where
  "sample_table =
     \<lparr>columns = [''title'', ''abstract'', ''publish_time'', ''journal'', ''year'',
                 ''abstract_word_count''],
      rows =
        [[(''title'', Str ''Covid study''), (''abstract'', Str ''a  b c''),
          (''publish_time'', Date (Timestamp 2020 3 1)), (''journal'', Str ''Lancet''),
          (''year'', Num 2020), (''abstract_word_count'', Num 3)],
         [(''title'', Str ''covid Vaccine''), (''abstract'', NaN),
          (''publish_time'', Date (Timestamp 2019 1 5)), (''journal'', Str ''BMJ''),
          (''year'', Num 2019), (''abstract_word_count'', Num 0)],
         [(''title'', Str ''Vaccine trial''), (''abstract'', Str ''one two''),
          (''publish_time'', Date (Timestamp 2020 3 1)), (''journal'', NaN),
          (''year'', Num 2020), (''abstract_word_count'', Num 2)]]\<rparr>"

text \<open>The frame that \<open>read_csv\<close> gives for the sample file.\<close>

definition sample_frame :: frame where
  "sample_frame =
     \<lparr>columns = [''title'', ''abstract'', ''publish_time'', ''journal''],
      rows =
        [[(''title'', Str ''Covid study''), (''abstract'', Str ''a  b c''),
          (''publish_time'', Str ''2020-03-01''), (''journal'', Str ''Lancet'')],
         [(''title'', NaN), (''abstract'', Str ''x''),
          (''publish_time'', Str ''2020-03-01''), (''journal'', Str ''BMJ'')],
         [(''title'', Str ''covid Vaccine''), (''abstract'', NaN),
          (''publish_time'', Str ''2019-01-05''), (''journal'', Str ''BMJ'')],
         [(''title'', Str ''Vaccine trial''), (''abstract'', Str ''zz''),
          (''publish_time'', Str ''garbage''), (''journal'', Str ''Cell'')],
         [(''title'', Str ''Vaccine trial''), (''abstract'', Str ''one two''),
          (''publish_time'', Str ''2020-03-01''), (''journal'', NaN)],
         [(''title'', Str ''Short''), (''abstract'', NaN),
          (''publish_time'', NaN), (''journal'', NaN)]]\<rparr>"


text \<open>
  A \<open>read_csv\<close> that infers a column of digit strings to be numeric, and a file whose
  abstract column is such a column.
\<close>

definition numeric_pandas :: pandas where
  "numeric_pandas =
     sample_pandas\<lparr>inferred :=
       (\<lambda>texts. texts \<noteq> []
          \<and> list_all (\<lambda>s. s \<noteq> [] \<and> list_all (\<lambda>c. c \<in> set ''0123456789'') s) texts)\<rparr>"

definition numeric_abstract_file :: csv_file where
  "numeric_abstract_file =
     Lines [[''title'', ''abstract'', ''publish_time''], [''Covid study'', ''12'', ''2020-03-01'']]"

subsection \<open>The error that load_data raises on a frame\<close>


subsection \<open>Dates with mixed UTC offsets\<close>

text \<open>
  A date column on which \<open>to_datetime\<close> raises \<open>ValueError\<close>, whatever \<open>errors\<close> is set to.
\<close>

definition offsets_pandas :: pandas where
  "offsets_pandas =
     sample_pandas\<lparr>date_error :=
       (\<lambda>col. if Str ''2020-03-01T00:00:00+01:00'' \<in> set col
                  \<and> Str ''2020-03-02T00:00:00+02:00'' \<in> set col
               then Some ValueError else None)\<rparr>"

definition offsets_file :: csv_file where
  "offsets_file =
     Lines [[''title'', ''abstract'', ''publish_time''],
            [''Covid study'', ''a b'', ''2020-03-01T00:00:00+01:00''],
            [''Vaccine trial'', ''c'', ''2020-03-02T00:00:00+02:00'']]"

section \<open>Properties\<close>

subsection \<open>Elementwise operations, rows and columns\<close>

lemma elementwise_Inr_iff: "elementwise e f xs = Inr ys \<longleftrightarrow> map f xs = map Some ys"
proof (induction xs arbitrary: ys)
  case Nil
  show ?case by auto
next
  case (Cons x xs)
  show ?case
  proof (cases "f x")
    case None
    then show ?thesis by auto
  next
    case (Some y)
    show ?thesis
    proof (cases "elementwise e f xs")
      case (Inl e')
      then have "map f xs \<noteq> map Some zs" for zs
        using Cons.IH [of zs] by simp
      with Some Inl show ?thesis by (auto simp: map_eq_Cons_conv)
    next
      case (Inr zs)
      then have "map f xs = map Some zs"
        using Cons.IH [of zs] by simp
      with Some Inr show ?thesis by (auto simp: map_eq_Cons_conv inj_Some [THEN inj_map_eq_map])
    qed
  qed
qed

lemma elementwise_all_Some:
  "(\<And>x. x \<in> set xs \<Longrightarrow> f x = Some (g x)) \<Longrightarrow> elementwise e f xs = Inr (map g xs)"
  by (simp add: elementwise_Inr_iff)


lemma at_update: "at (AList.update c v r) c' = (if c' = c then v else at r c')"
  by (simp add: at_def update_conv')

lemma keys_update: "fst ` set (AList.update c v r) = insert c (fst ` set r)"
  by (simp add: dom_update)

lemma map2_map_same: "map2 f xs (map g xs) = map (\<lambda>x. f x (g x)) xs"
  by (induction xs) auto

lemma select_map: "map fst (filter snd (zip xs (map p xs))) = filter p xs"
  by (induction xs) auto

lemma elementwise_Some_D:
  "elementwise e f xs = Inr ys \<Longrightarrow> x \<in> set xs \<Longrightarrow> f x \<noteq> None"
  by (induction xs arbitrary: ys) (auto split: option.splits sum.splits)

lemma map2_maps: "map2 f (map h xs) (map k xs) = map (\<lambda>x. f (h x) (k x)) xs"
  by (induction xs) auto

lemma year_cell_coerce: "year_cell (coerce P col v) = Some (year_value (coerce P col v))"
  by (auto simp: coerce_def year_value_def split: option.splits)

lemma len_split_fillna:
  "textual v \<Longrightarrow> len_split (if isna v then Str '''' else v) = Some (word_count v)"
  by (cases v) (auto simp: textual_def isna_def word_count_def field_text_def)

lemma len_split_fillna_None:
  "\<not> textual v \<Longrightarrow> len_split (if isna v then Str '''' else v) = None"
  by (cases v) (auto simp: textual_def isna_def)

lemma apply_len_split_fillna:
  "list_all textual vs \<Longrightarrow> apply_len_split (fillna '''' vs) = Inr (map word_count vs)"
  unfolding apply_len_split_def fillna_def
  by (simp add: elementwise_Inr_iff len_split_fillna list_all_iff split del: if_split)

lemma apply_len_split_fillna_D:
  assumes "apply_len_split (fillna '''' vs) = Inr ns"
  shows "list_all textual vs"
proof -
  have "textual v" if "v \<in> set vs" for v
  proof (rule ccontr)
    assume "\<not> textual v"
    then have "len_split (if isna v then Str '''' else v) = None"
      by (rule len_split_fillna_None)
    moreover have "(if isna v then Str '''' else v) \<in> set (fillna '''' vs)"
      using that by (auto simp: fillna_def)
    ultimately show False
      using elementwise_Some_D [OF assms [unfolded apply_len_split_def]] by blast
  qed
  then show ?thesis by (simp add: list_all_iff)
qed

lemma rows_setitem:
  assumes "rows df = map h xs"
  shows "rows (setitem c (map k xs) df) = map (\<lambda>x. AList.update c (k x) (h x)) xs"
  by (simp only: setitem_def frame.select_convs assms map2_maps)

lemma columns_setitem:
  "columns (setitem c vs df) = (if c \<in> set (columns df) then columns df else columns df @ [c])"
  by (simp add: setitem_def)

lemma getitem_rows:
  assumes "c \<in> set (columns df)" and "rows df = map h xs"
  shows "getitem c df = Inr (map (\<lambda>x. at (h x) c) xs)"
  using assms by (simp add: getitem_def o_def)

lemma dt_year_coerce:
  "dt_year (map (\<lambda>x. coerce P col (g x)) xs) = Inr (map (\<lambda>x. year_value (coerce P col (g x))) xs)"
  unfolding dt_year_def map_map [symmetric, of "year_value" "\<lambda>x. coerce P col (g x)", unfolded o_def]
  by (rule elementwise_all_Some) (auto simp: year_cell_coerce)

lemma derive_unfold:
  fixes P :: pandas and df :: frame
  assumes pt: "''publish_time'' \<in> set (columns df)"
  defines "col \<equiv> map (\<lambda>r. at r ''publish_time'') (rows df)"
  defines "df2 \<equiv> setitem ''year'' (map (\<lambda>r. year_value (coerce P col (at r ''publish_time''))) (rows df))
                     (setitem ''publish_time'' (map (\<lambda>r. coerce P col (at r ''publish_time'')) (rows df)) df)"
  shows "derive P df =
           (case date_error P col of
              Some e \<Rightarrow> Inl e
            | None \<Rightarrow>
                (case getitem ''abstract'' df2 of
                   Inl e \<Rightarrow> Inl e
                 | Inr ab \<Rightarrow> (case apply_len_split (fillna '''' ab) of
                               Inl e \<Rightarrow> Inl e
                             | Inr ns \<Rightarrow> Inr (setitem ''abstract_word_count'' ns df2))))"
    and "rows df2 = map (\<lambda>r. AList.update ''year'' (year_value (coerce P col (at r ''publish_time'')))
                             (AList.update ''publish_time'' (coerce P col (at r ''publish_time'')) r)) (rows df)"
    and "columns df2 = (if ''year'' \<in> set (columns df) then columns df else columns df @ [''year''])"
proof -
  let ?D = "\<lambda>r. coerce P col (at r ''publish_time'')"
  let ?df1 = "setitem ''publish_time'' (map ?D (rows df)) df"
  have g0: "getitem ''publish_time'' df = Inr col"
    using pt by (simp add: getitem_def col_def)
  have td: "to_datetime P col
              = (case date_error P col of Some e \<Rightarrow> Inl e | None \<Rightarrow> Inr (map ?D (rows df)))"
    by (simp add: to_datetime_def col_def split: option.split)
  have rows1: "rows ?df1 = map (\<lambda>r. AList.update ''publish_time'' (?D r) r) (rows df)"
    by (rule rows_setitem) simp
  have cols1: "columns ?df1 = columns df"
    using pt by (simp add: columns_setitem)
  have "getitem ''publish_time'' ?df1 = Inr (map (\<lambda>r. at (AList.update ''publish_time'' (?D r) r) ''publish_time'') (rows df))"
    by (rule getitem_rows [OF _ rows1]) (simp add: cols1 pt)
  then have g1: "getitem ''publish_time'' ?df1 = Inr (map ?D (rows df))"
    by (simp add: at_update)
  have dt: "dt_year (map ?D (rows df)) = Inr (map (\<lambda>r. year_value (?D r)) (rows df))"
    by (rule dt_year_coerce)
  show "derive P df =
           (case date_error P col of
              Some e \<Rightarrow> Inl e
            | None \<Rightarrow>
                (case getitem ''abstract'' df2 of
                   Inl e \<Rightarrow> Inl e
                 | Inr ab \<Rightarrow> (case apply_len_split (fillna '''' ab) of
                               Inl e \<Rightarrow> Inl e
                             | Inr ns \<Rightarrow> Inr (setitem ''abstract_word_count'' ns df2))))"
    by (cases "date_error P col")
       (simp_all only: derive_def g0 td g1 dt Let_def sum.case option.case df2_def)
  show "rows df2 = map (\<lambda>r. AList.update ''year'' (year_value (?D r))
                             (AList.update ''publish_time'' (?D r) r)) (rows df)"
    unfolding df2_def by (rule rows_setitem [OF rows1])
  show "columns df2 = (if ''year'' \<in> set (columns df) then columns df else columns df @ [''year''])"
    unfolding df2_def by (simp add: columns_setitem pt)
qed

lemma derive_Inr:
  assumes "derive P df = Inr df3"
  shows "''publish_time'' \<in> set (columns df)" and "''abstract'' \<in> set (columns df)"
    and "list_all (\<lambda>r. textual (at r ''abstract'')) (rows df)"
    and "rows df3 = map (derive_row P (map (\<lambda>r. at r ''publish_time'') (rows df))) (rows df)"
    and "columns df3 = derived_columns (columns df)"
    and "date_error P (map (\<lambda>r. at r ''publish_time'') (rows df)) = None"
proof -
  let ?col = "map (\<lambda>r. at r ''publish_time'') (rows df)"
  let ?D = "\<lambda>r. coerce P ?col (at r ''publish_time'')"
  let ?df2 = "setitem ''year'' (map (\<lambda>r. year_value (?D r)) (rows df))
                     (setitem ''publish_time'' (map ?D (rows df)) df)"
  show pt: "''publish_time'' \<in> set (columns df)"
    using assms by (auto simp: derive_def getitem_def split: if_splits)
  note d = derive_unfold [OF pt, of P]
  show de: "date_error P ?col = None"
    using assms unfolding d(1) by (auto split: option.splits)
  note d1 = d(1) [unfolded de option.case]
  have ab_in: "''abstract'' \<in> set (columns ?df2)"
    using assms unfolding d1 by (auto simp: getitem_def split: if_splits)
  then show ab: "''abstract'' \<in> set (columns df)"
    unfolding d(3) by (auto split: if_splits)
  let ?ab = "map (\<lambda>r. at r ''abstract'') (rows df)"
  have "getitem ''abstract'' ?df2 = Inr (map (\<lambda>r. at (AList.update ''year'' (year_value (?D r))
                             (AList.update ''publish_time'' (?D r) r)) ''abstract'') (rows df))"
    by (rule getitem_rows [OF ab_in d(2)])
  then have g2: "getitem ''abstract'' ?df2 = Inr ?ab"
    by (simp add: at_update)
  obtain ns where ns: "apply_len_split (fillna '''' ?ab) = Inr ns"
    and df3: "df3 = setitem ''abstract_word_count'' ns ?df2"
    using assms unfolding d1 g2 by (auto split: sum.splits)
  have tex: "list_all textual ?ab"
    using ns by (rule apply_len_split_fillna_D)
  then show "list_all (\<lambda>r. textual (at r ''abstract'')) (rows df)"
    by (simp add: list_all_iff)
  have ns_eq: "ns = map (\<lambda>r. word_count (at r ''abstract'')) (rows df)"
    using ns apply_len_split_fillna [OF tex] by (auto simp: o_def)
  show "rows df3 = map (derive_row P ?col) (rows df)"
    unfolding df3 ns_eq derive_row_def Let_def by (rule rows_setitem [OF d(2)])
  show "columns df3 = derived_columns (columns df)"
    unfolding df3 by (simp add: columns_setitem pt derived_columns_def Let_def)
qed


lemma dropna_Inr:
  "dropna cs df = Inr d \<longleftrightarrow>
     set cs \<subseteq> set (columns df)
     \<and> d = df\<lparr>rows := filter (\<lambda>r. list_all (\<lambda>c. \<not> isna (at r c)) cs) (rows df)\<rparr>"
proof (cases "filter (\<lambda>c. c \<notin> set (columns df)) cs")
  case Nil
  then show ?thesis
    by (auto simp: dropna_def filter_empty_conv)
next
  case (Cons m ms)
  then have "m \<in> set (filter (\<lambda>c. c \<notin> set (columns df)) cs)"
    by simp
  then have "\<not> set cs \<subseteq> set (columns df)"
    by auto
  with Cons show ?thesis
    by (simp add: dropna_def)
qed

lemma at_derive_row:
  "at (derive_row P col r) c =
     (if c = ''abstract_word_count'' then word_count (at r ''abstract'')
      else if c = ''year'' then year_value (coerce P col (at r ''publish_time''))
      else if c = ''publish_time'' then coerce P col (at r ''publish_time'')
      else at r c)"
  by (simp add: derive_row_def Let_def at_update)

lemma keys_derive_row:
  "fst ` set (derive_row P col r) =
     fst ` set r \<union> {''publish_time'', ''year'', ''abstract_word_count''}"
  by (auto simp: derive_row_def Let_def keys_update)

lemma coerce_cases:
  "coerce P col v = NaT \<or> (\<exists>t. coerce P col v = Date t \<and> \<not> isna v \<and> parse_datetime P col v = Some t)"
  by (auto simp: coerce_def split: option.splits)

lemma survives_derive_row:
  "(\<not> isna (at (derive_row P col r) ''title'') \<and> \<not> isna (at (derive_row P col r) ''publish_time''))
     = survives P col r"
  by (auto simp: at_derive_row survives_def coerce_def isna_def split: option.splits)

lemma derived_columns_set:
  "set (derived_columns cs) = set cs \<union> {''year'', ''abstract_word_count''}"
  by (auto simp: derived_columns_def Let_def)

lemma load_data_Inr:
  assumes "load_data P f = Inr df"
  shows "\<exists>df0. read_csv P f = Inr df0
    \<and> ''title'' \<in> set (columns df0) \<and> ''publish_time'' \<in> set (columns df0)
    \<and> ''abstract'' \<in> set (columns df0)
    \<and> list_all (\<lambda>r. textual (at r ''abstract'')) (rows df0)
    \<and> date_error P (publish_times df0) = None
    \<and> columns df = derived_columns (columns df0)
    \<and> rows df = map (derive_row P (publish_times df0)) (filter (survives P (publish_times df0)) (rows df0))"
proof -
  obtain df0 df3 where r: "read_csv P f = Inr df0" and d: "derive P df0 = Inr df3"
    and dn: "dropna [''title'', ''publish_time''] df3 = Inr df"
    using assms by (auto simp: load_data_def split: sum.splits)
  note facts = derive_Inr [OF d]
  from dn have t3: "''title'' \<in> set (columns df3)"
    and df: "df = df3\<lparr>rows := filter (\<lambda>r. \<not> isna (at r ''title'') \<and> \<not> isna (at r ''publish_time'')) (rows df3)\<rparr>"
    by (simp_all add: dropna_Inr)
  have t0: "''title'' \<in> set (columns df0)"
    using t3 unfolding facts(5) derived_columns_set by simp
  have "rows df = map (derive_row P (publish_times df0)) (filter (survives P (publish_times df0)) (rows df0))"
    unfolding df publish_times_def
    by (simp add: facts(4) filter_map o_def survives_derive_row)
  moreover have "columns df = derived_columns (columns df0)"
    unfolding df by (simp add: facts(5))
  ultimately show ?thesis
    using r t0 facts(1,2,3) facts(6) [folded publish_times_def] by blast
qed


lemma load_data_year:
  assumes "load_data P f = Inr df" and "r \<in> set (rows df)"
  shows "\<exists>t. at r ''publish_time'' = Date t \<and> at r ''year'' = Num (year_of t)"
proof -
  from load_data_Inr [OF assms(1)] obtain df0 where
    rows: "rows df = map (derive_row P (publish_times df0)) (filter (survives P (publish_times df0)) (rows df0))"
    by blast
  then obtain r0 where r: "r = derive_row P (publish_times df0) r0" and s: "survives P (publish_times df0) r0"
    using assms(2) by auto
  from s obtain t where "coerce P (publish_times df0) (at r0 ''publish_time'') = Date t"
    by (auto simp: survives_def coerce_def)
  then show ?thesis
    unfolding r by (simp add: at_derive_row year_value_def)
qed

lemma load_data_year_column:
  assumes "load_data P f = Inr df"
  shows "year_column df"
proof -
  from load_data_Inr [OF assms] obtain df0 :: frame where "columns df = derived_columns (columns df0)"
    by blast
  then have "''year'' \<in> set (columns df)"
    by (simp add: derived_columns_set)
  moreover have "case at r ''year'' of Num y \<Rightarrow> True | NaN \<Rightarrow> True | _ \<Rightarrow> False"
    if "r \<in> set (rows df)" for r
    using load_data_year [OF assms that] by auto
  ultimately show ?thesis
    by (simp add: year_column_def list_all_iff)
qed

lemma compare_cell_year:
  "(case v of Num y \<Rightarrow> True | NaN \<Rightarrow> True | _ \<Rightarrow> False) \<Longrightarrow>
     compare_cell cmp k v = Some (case v of Num y \<Rightarrow> cmp y k | _ \<Rightarrow> False)"
  by (cases v) auto

lemma df_filtered_year_column:
  assumes "year_column df"
  shows "df_filtered (a, b) df = Inr (df\<lparr>rows := filter (year_between a b) (rows df)\<rparr>)"
proof -
  let ?ys = "map (\<lambda>r. at r ''year'') (rows df)"
  have g: "getitem ''year'' df = Inr ?ys"
    using assms by (simp add: year_column_def getitem_def)
  have ok: "\<And>v. v \<in> set ?ys \<Longrightarrow> (case v of Num y \<Rightarrow> True | NaN \<Rightarrow> True | _ \<Rightarrow> False)"
    using assms by (auto simp: year_column_def list_all_iff)
  have c1: "compare_series (\<lambda>y k. y \<ge> k) ?ys a
              = Inr (map (\<lambda>r. case at r ''year'' of Num y \<Rightarrow> y \<ge> a | _ \<Rightarrow> False) (rows df))"
    unfolding compare_series_def elementwise_Inr_iff
    using ok by (simp add: compare_cell_year)
  have c2: "compare_series (\<lambda>y k. y \<le> k) ?ys b
              = Inr (map (\<lambda>r. case at r ''year'' of Num y \<Rightarrow> y \<le> b | _ \<Rightarrow> False) (rows df))"
    unfolding compare_series_def elementwise_Inr_iff
    using ok by (simp add: compare_cell_year)
  have m: "map2 (\<and>) (map (\<lambda>r. case at r ''year'' of Num y \<Rightarrow> y \<ge> a | _ \<Rightarrow> False) (rows df))
                     (map (\<lambda>r. case at r ''year'' of Num y \<Rightarrow> y \<le> b | _ \<Rightarrow> False) (rows df))
           = map (year_between a b) (rows df)"
    unfolding map2_maps by (rule map_cong) (auto simp: year_between_def split: cell.splits)
  show ?thesis
    unfolding df_filtered_def g c1 c2 fst_conv snd_conv sum.case m select_def select_map ..
qed

lemma year_column_filter:
  "year_column df \<Longrightarrow> year_column (df\<lparr>rows := filter p (rows df)\<rparr>)"
  by (simp add: year_column_def list_all_iff)

lemma years_member:
  "r \<in> set (rows df) \<Longrightarrow> at r ''year'' = Num y \<Longrightarrow> y \<in> set (years df)"
  by (force simp: years_def List.map_filter_def)

lemma sample_load: "load_data sample_pandas sample_file = Inr sample_table"
  by code_simp

subsection \<open>The frame that read_csv gives\<close>

lemma read_csv_Lines:
  assumes "filter (\<lambda>l. \<not> blank l) ls = h # ds"
  shows "read_csv P (Lines ls) =
     Inr \<lparr>columns = mangle h,
          rows = map (\<lambda>l. zip (mangle h)
                   (map2 convert
                      (map (\<lambda>j. inferred P
                              (column_texts
                                 (map (drop (fst (index_layout (length h) ds)))
                                    (good_lines (length h + fst (index_layout (length h) ds))
                                       (snd (index_layout (length h) ds)))) j))
                         [0..<length h]) l))
              (map (drop (fst (index_layout (length h) ds)))
                 (good_lines (length h + fst (index_layout (length h) ds))
                    (snd (index_layout (length h) ds))))\<rparr>"
  by (simp only: read_csv_def csv_file.case assms list.case Let_def)

lemma read_csv_Inr:
  assumes "read_csv P f = Inr df0"
  obtains ls names nums good where "f = Lines ls"
    and "df0 = \<lparr>columns = names, rows = map (\<lambda>l. zip names (map2 convert nums l)) good\<rparr>"
proof -
  from assms obtain ls where f: "f = Lines ls"
    by (auto simp: read_csv_def split: csv_file.splits)
  from assms obtain h ds where nb: "filter (\<lambda>l. \<not> blank l) ls = h # ds"
    unfolding f by (auto simp: read_csv_def split: list.splits)
  show ?thesis
    using assms that [OF f] unfolding f read_csv_Lines [OF nb] sum.inject by blast
qed

lemma read_csv_Inl:
  assumes "read_csv P f = Inl e"
  shows "(f = Missing \<and> e = FileNotFoundError) \<or> (f = Unreadable \<and> e = PermissionError)
         \<or> (f = Undecodable \<and> e = UnicodeDecodeError)
         \<or> (\<exists>ls. f = Lines ls \<and> list_all blank ls \<and> e = EmptyDataError)"
  using assms
  by (auto simp: read_csv_def Let_def filter_empty_conv list_all_iff
        split: csv_file.splits list.splits)


lemma convert_cases:
  "convert b s = NaN \<or> (s \<notin> set na_values \<and> (convert b s = Str s \<or> convert b s = Scalar s))"
  by (simp add: convert_def)

lemma at_zip_cases:
  "at (zip h vs) c = NaN \<or> at (zip h vs) c \<in> set vs"
  by (auto simp: at_def split: option.splits dest!: map_of_SomeD set_zip_rightD)

lemma read_csv_cell:
  assumes "read_csv P f = Inr df0" and "r \<in> set (rows df0)"
  shows "at r c = NaN \<or> (\<exists>s. s \<notin> set na_values \<and> (at r c = Str s \<or> at r c = Scalar s))"
proof -
  from assms(1) obtain names nums good
    where "df0 = \<lparr>columns = names, rows = map (\<lambda>l. zip names (map2 convert nums l)) good\<rparr>"
    by (rule read_csv_Inr)
  with assms(2) obtain l where r: "r = zip names (map2 convert nums l)"
    by auto
  show ?thesis
  proof (cases "at r c = NaN")
    case True
    then show ?thesis by simp
  next
    case False
    then have "at r c \<in> set (map2 convert nums l)"
      using at_zip_cases [of names "map2 convert nums l" c] unfolding r by simp
    then obtain b s where "at r c = convert b s"
      by auto
    with False show ?thesis
      using convert_cases [of b s] by auto
  qed
qed

lemma read_csv_no_empty_string:
  assumes "read_csv P f = Inr df0" and "r \<in> set (rows df0)"
  shows "at r c \<noteq> Str ''''"
  using read_csv_cell [OF assms, of c] by (auto simp: na_values_def)

lemma split_Nil: "split [] = []"
  by (simp add: split.simps)

lemma load_data_steps:
  assumes "load_data P f = Inr df"
  shows "\<exists>df0 df3. read_csv P f = Inr df0 \<and> derive P df0 = Inr df3
           \<and> dropna [''title'', ''publish_time''] df3 = Inr df"
  using assms by (auto simp: load_data_def split: sum.splits)

lemma sample_read: "read_csv sample_pandas sample_file = Inr sample_frame"
  by code_simp

subsection \<open>Splitting and joining\<close>

lemma split_dropWhile: "split (dropWhile isspace s) = split s"
  by (subst (1 2) split.simps) simp

lemma split_space_Cons: "isspace c \<Longrightarrow> split (c # s) = split s"
  using split_dropWhile [of "c # s"] split_dropWhile [of s] by simp

lemma split_all_space:
  assumes "\<forall>c \<in> set s. isspace c"
  shows "split s = []"
proof -
  have d: "dropWhile isspace s = []"
    using assms by (simp add: dropWhile_eq_Nil_conv)
  show ?thesis
    by (subst split.simps) (simp only: d list.case)
qed

lemma takeWhile_append_stop: "\<not> P c \<Longrightarrow> takeWhile P (xs @ c # t) = takeWhile P xs"
  by (induction xs) auto

lemma dropWhile_append_stop: "\<not> P c \<Longrightarrow> dropWhile P (xs @ c # t) = dropWhile P xs @ c # t"
  by (induction xs) auto

lemma split_append_space:
  "isspace c \<Longrightarrow> split (s @ c # t) = split s @ split t"
proof (induction s rule: split.induct)
  case (1 s)
  show ?case
  proof (cases "dropWhile isspace s")
    case Nil
    then have sp: "\<forall>x \<in> set s. isspace x"
      by (simp add: dropWhile_eq_Nil_conv)
    then have "dropWhile isspace (s @ c # t) = dropWhile isspace t"
      using "1.prems" by (simp add: dropWhile_append)
    then have "split (s @ c # t) = split t"
      using split_dropWhile [of "s @ c # t"] split_dropWhile [of t] by simp
    with sp show ?thesis
      by (simp add: split_all_space)
  next
    case (Cons x xs)
    let ?w = "takeWhile (\<lambda>x. \<not> isspace x) (x # xs)"
    let ?r = "dropWhile (\<lambda>x. \<not> isspace x) (x # xs)"
    have ex: "\<exists>y \<in> set s. \<not> isspace y"
      using Cons dropWhile_eq_Nil_conv [of isspace s] by auto
    have d: "dropWhile isspace (s @ c # t) = (x # xs) @ c # t"
      using Cons ex by (auto simp: dropWhile_append)
    have tw: "takeWhile (\<lambda>x. \<not> isspace x) ((x # xs) @ c # t) = ?w"
      using "1.prems" by (intro takeWhile_append_stop) simp
    have dw: "dropWhile (\<lambda>x. \<not> isspace x) ((x # xs) @ c # t) = ?r @ c # t"
      using "1.prems" by (intro dropWhile_append_stop) simp
    have s1: "split s = ?w # split ?r"
      by (subst split.simps) (simp only: Cons list.case)
    have "split (s @ c # t) = (case (x # xs) @ c # t of [] \<Rightarrow> []
            | a # as \<Rightarrow> takeWhile (\<lambda>x. \<not> isspace x) (a # as)
                       # split (dropWhile (\<lambda>x. \<not> isspace x) (a # as)))"
      by (subst split.simps) (simp only: d)
    also have "\<dots> = takeWhile (\<lambda>x. \<not> isspace x) ((x # xs) @ c # t)
                     # split (dropWhile (\<lambda>x. \<not> isspace x) ((x # xs) @ c # t))"
      by simp
    finally have s2: "split (s @ c # t) = ?w # split (?r @ c # t)"
      unfolding tw dw .
    show ?thesis
      unfolding s1 s2 using "1.IH" [OF Cons "1.prems"] by simp
  qed
qed

lemma split_join:
  "split (join '' '' ss) = concat (map split ss)"
proof (induction ss rule: induct_list012)
  case 1
  show ?case by (simp add: split_Nil)
next
  case (2 x)
  show ?case by simp
next
  case (3 x y ys)
  have "isspace CHR '' ''"
    by (simp add: isspace_def)
  then have "split (x @ CHR '' '' # join '' '' (y # ys)) = split x @ split (join '' '' (y # ys))"
    by (rule split_append_space)
  with 3 show ?case by simp
qed

lemma lower_char_space: "lower_char CHR '' '' = CHR '' ''"
  by (simp add: lower_char_def)

lemma lower_append: "lower (s @ t) = lower s @ lower t"
  by (simp add: lower_def)

lemma lower_join: "lower (join '' '' ss) = join '' '' (map lower ss)"
  by (induction ss rule: induct_list012) (simp_all add: lower_append, simp_all add: lower_def lower_char_space)

subsection \<open>The words of the titles\<close>

lemma str_cell_textual:
  "textual v \<Longrightarrow> \<not> isna v \<Longrightarrow> str_cell v = Some (field_text v)"
  by (cases v) (auto simp: textual_def isna_def field_text_def)

lemma strings_textual:
  assumes "list_all textual vs"
  shows "strings (filter (\<lambda>v. \<not> isna v) vs) = Inr (map field_text (filter (\<lambda>v. \<not> isna v) vs))"
  unfolding strings_def
  by (rule elementwise_all_Some) (use assms in \<open>auto simp: list_all_iff str_cell_textual\<close>)

lemma strings_Inr_textual:
  assumes "strings (filter (\<lambda>v. \<not> isna v) vs) = Inr ss"
  shows "list_all textual vs"
proof -
  have "textual v" if "v \<in> set vs" for v
  proof (cases "isna v")
    case True
    then show ?thesis by (auto simp: isna_def textual_def)
  next
    case False
    then have "str_cell v \<noteq> None"
      using elementwise_Some_D [OF assms [unfolded strings_def], of v] that by simp
    then show ?thesis
      by (cases v) (auto simp: textual_def)
  qed
  then show ?thesis by (simp add: list_all_iff)
qed

lemma field_text_na: "isna v \<Longrightarrow> field_text v = []"
  by (auto simp: isna_def field_text_def)

lemma concat_map_filter_na:
  "concat (map (\<lambda>v. split (lower (field_text v))) (filter (\<lambda>v. \<not> isna v) vs))
     = concat (map (\<lambda>v. split (lower (field_text v))) vs)"
  by (induction vs) (auto simp: field_text_na lower_def split_Nil)

lemma words_of_texts:
  "split (lower (join '' '' ss)) = concat (map (\<lambda>s. split (lower s)) ss)"
  by (simp only: lower_join split_join map_map o_def)

lemma all_words_textual:
  assumes "''title'' \<in> set (columns df)" and "list_all (\<lambda>r. textual (at r ''title'')) (rows df)"
  shows "all_words df = Inr (token_stream df ''title'')"
proof -
  let ?ts = "map (\<lambda>r. at r ''title'') (rows df)"
  have g: "getitem ''title'' df = Inr ?ts"
    using assms(1) by (simp add: getitem_def)
  have "list_all textual ?ts"
    using assms(2) by (simp add: list_all_iff)
  then have s: "strings (filter (\<lambda>v. \<not> isna v) ?ts) = Inr (map field_text (filter (\<lambda>v. \<not> isna v) ?ts))"
    by (rule strings_textual)
  have "split (lower (join '' '' (map field_text (filter (\<lambda>v. \<not> isna v) ?ts))))
          = concat (map (\<lambda>v. split (lower (field_text v))) (filter (\<lambda>v. \<not> isna v) ?ts))"
    by (simp add: words_of_texts o_def)
  also have "\<dots> = concat (map (\<lambda>v. split (lower (field_text v))) ?ts)"
    by (rule concat_map_filter_na)
  also have "\<dots> = token_stream df ''title''"
    by (simp add: token_stream_def words_of_texts o_def)
  finally show ?thesis
    by (simp add: all_words_def g s)
qed

lemma all_words_Inr:
  assumes "all_words df = Inr ws"
  shows "''title'' \<in> set (columns df)" and "list_all (\<lambda>r. textual (at r ''title'')) (rows df)"
    and "ws = token_stream df ''title''"
proof -
  show t: "''title'' \<in> set (columns df)"
    using assms by (auto simp: all_words_def getitem_def split: if_splits)
  then have g: "getitem ''title'' df = Inr (map (\<lambda>r. at r ''title'') (rows df))"
    by (simp add: getitem_def)
  from assms obtain ss where "strings (filter (\<lambda>v. \<not> isna v) (map (\<lambda>r. at r ''title'') (rows df))) = Inr ss"
    unfolding all_words_def g by (auto split: sum.splits)
  then have "list_all textual (map (\<lambda>r. at r ''title'') (rows df))"
    by (rule strings_Inr_textual)
  then show x: "list_all (\<lambda>r. textual (at r ''title'')) (rows df)"
    by (simp add: list_all_iff)
  show "ws = token_stream df ''title''"
    using all_words_textual [OF t x] assms by simp
qed

subsection \<open>Counting\<close>

lemma Counter_snoc: "Counter (ws @ [w]) = incr w (Counter ws)"
  by (simp add: Counter_def)

lemma set_distinct_tokens: "set (distinct_tokens ws) = set ws"
  by (induction ws) auto

lemma distinct_distinct_tokens: "distinct (distinct_tokens ws)"
  by (induction ws) (auto simp: distinct_removeAll)

lemma distinct_tokens_snoc:
  "distinct_tokens (ws @ [w]) = (if w \<in> set ws then distinct_tokens ws else distinct_tokens ws @ [w])"
proof (induction ws)
  case Nil
  show ?case by simp
next
  case (Cons x ws)
  show ?case
  proof (cases "w = x")
    case True
    then show ?thesis
      using Cons by (auto simp: removeAll_append)
  next
    case False
    then show ?thesis
      using Cons by (auto simp: removeAll_append)
  qed
qed

lemma incr_map:
  assumes "distinct ts"
  shows "incr w (map (\<lambda>t. (t, g t)) ts)
           = (if w \<in> set ts then map (\<lambda>t. (t, if t = w then g t + 1 else g t)) ts
              else map (\<lambda>t. (t, g t)) ts @ [(w, 1)])"
  using assms by (induction ts) auto

lemma Counter_counts:
  "Counter ws = map (\<lambda>t. (t, int (count_list ws t))) (distinct_tokens ws)"
proof (induction ws rule: rev_induct)
  case Nil
  show ?case by (simp add: Counter_def)
next
  case (snoc w ws)
  let ?L = "distinct_tokens ws"
  have d: "distinct ?L"
    by (rule distinct_distinct_tokens)
  have c: "int (count_list (ws @ [w]) t) = (if t = w then int (count_list ws t) + 1 else int (count_list ws t))" for t
    by simp
  show ?case
  proof (cases "w \<in> set ws")
    case True
    then have "incr w (map (\<lambda>t. (t, int (count_list ws t))) ?L)
                 = map (\<lambda>t. (t, if t = w then int (count_list ws t) + 1 else int (count_list ws t))) ?L"
      by (simp only: incr_map [OF d] set_distinct_tokens if_True)
    with True show ?thesis
      by (simp only: Counter_snoc snoc.IH distinct_tokens_snoc if_True c)
  next
    case False
    then have "incr w (map (\<lambda>t. (t, int (count_list ws t))) ?L)
                 = map (\<lambda>t. (t, int (count_list ws t))) ?L @ [(w, 1)]"
      by (simp only: incr_map [OF d] set_distinct_tokens if_False)
    moreover have "map (\<lambda>t. (t, int (count_list (ws @ [w]) t))) ?L
                     = map (\<lambda>t. (t, int (count_list ws t))) ?L"
      using False by (intro map_cong refl) (auto simp: set_distinct_tokens)
    moreover have "int (count_list (ws @ [w]) w) = 1"
      using False by simp
    ultimately show ?thesis
      using False by (simp add: Counter_snoc snoc.IH distinct_tokens_snoc)
  qed
qed

subsection \<open>The ranking\<close>

lemma sum_list_incr: "sum_list (map snd (incr w d)) = sum_list (map snd d) + 1"
  by (induction w d rule: incr.induct) auto

lemma sum_list_Counter: "sum_list (map snd (Counter ws)) = int (length ws)"
  by (induction ws rule: rev_induct) (simp_all add: Counter_snoc sum_list_incr, simp add: Counter_def)

lemma sum_list_insort_key:
  "sum_list (map g (insort_key f x xs)) = g x + sum_list (map g xs)"
  for g :: "'a \<Rightarrow> int"
  by (induction xs) auto

lemma sum_list_sort_key:
  "sum_list (map g (sort_key f xs)) = sum_list (map g xs)"
  for g :: "'a \<Rightarrow> int"
  by (induction xs) (simp_all add: sum_list_insort_key)

lemma length_Counter: "length (Counter ws) = card (set ws)"
  using distinct_card [OF distinct_distinct_tokens, of ws]
  by (simp add: Counter_counts set_distinct_tokens)

lemma keys_Counter: "map fst (Counter ws) = distinct_tokens ws"
  by (simp add: Counter_counts o_def)

lemma first_index_Cons:
  "first_index (w # ws) t = (if t = w then 0 else Suc (first_index ws t))"
  by (simp add: first_index_def)

lemma sorted_wrt_first_index:
  "sorted_wrt (\<lambda>s t. first_index ws s < first_index ws t) (distinct_tokens ws)"
proof (induction ws)
  case Nil
  show ?case by simp
next
  case (Cons w ws)
  have "sorted_wrt (\<lambda>s t. first_index ws s < first_index ws t) (removeAll w (distinct_tokens ws))"
    unfolding removeAll_filter_not_eq using Cons by (rule sorted_wrt_filter)
  then have "sorted_wrt (\<lambda>s t. first_index (w # ws) s < first_index (w # ws) t)
               (removeAll w (distinct_tokens ws))"
    by (rule sorted_wrt_mono_rel [rotated]) (auto simp: first_index_Cons)
  then show ?case
    by (auto simp: first_index_Cons)
qed

lemma sorted_wrt_insort_key_tie:
  fixes f :: "'a \<Rightarrow> int"
  assumes "sorted_wrt (\<lambda>a b. f a < f b \<or> (f a = f b \<and> Q a b)) ys" and "\<forall>y \<in> set ys. Q x y"
  shows "sorted_wrt (\<lambda>a b. f a < f b \<or> (f a = f b \<and> Q a b)) (insort_key f x ys)"
  using assms
proof (induction ys)
  case Nil
  show ?case by simp
next
  case (Cons y ys)
  show ?case
  proof (cases "f x \<le> f y")
    case True
    have "f x < f z \<or> (f x = f z \<and> Q x z)" if "z \<in> set (y # ys)" for z
    proof -
      have "f y \<le> f z"
        using that Cons.prems(1) by auto
      with True have "f x \<le> f z" by simp
      moreover have "Q x z"
        using that Cons.prems(2) by auto
      ultimately show ?thesis by auto
    qed
    with True Cons.prems(1) show ?thesis by simp
  next
    case False
    have "sorted_wrt (\<lambda>a b. f a < f b \<or> (f a = f b \<and> Q a b)) (insort_key f x ys)"
      using Cons by simp
    moreover have "f y < f z \<or> (f y = f z \<and> Q y z)" if "z \<in> set (insort_key f x ys)" for z
      using that False Cons.prems(1) by (auto simp: set_insort_key)
    ultimately show ?thesis
      using False by simp
  qed
qed

lemma sorted_wrt_sort_key_tie:
  fixes f :: "'a \<Rightarrow> int"
  assumes "sorted_wrt Q xs"
  shows "sorted_wrt (\<lambda>a b. f a < f b \<or> (f a = f b \<and> Q a b)) (sort_key f xs)"
  using assms
proof (induction xs)
  case Nil
  show ?case by simp
next
  case (Cons x xs)
  have "sorted_wrt (\<lambda>a b. f a < f b \<or> (f a = f b \<and> Q a b)) (sort_key f xs)"
    using Cons by simp
  moreover have "\<forall>y \<in> set (sort_key f xs). Q x y"
    using Cons.prems by simp
  ultimately show ?case
    by (simp add: sorted_wrt_insort_key_tie)
qed

lemma sorted_wrt_take: "sorted_wrt R xs \<Longrightarrow> sorted_wrt R (take n xs)"
  by (metis append_take_drop_id sorted_wrt_append)

lemma most_common_ranked: "sorted_wrt (ranked_before ws) (most_common n (Counter ws))"
proof -
  have "sorted_wrt (\<lambda>a b. first_index ws (fst a) < first_index ws (fst b)) (Counter ws)"
    using sorted_wrt_first_index [of ws]
    by (simp add: Counter_counts sorted_wrt_map)
  then have "sorted_wrt (\<lambda>a b. - snd a < - snd b \<or> (- snd a = - snd b
                 \<and> first_index ws (fst a) < first_index ws (fst b)))
               (sort_key (\<lambda>kc. - snd kc) (Counter ws))"
    by (rule sorted_wrt_sort_key_tie)
  then have "sorted_wrt (ranked_before ws) (sort_key (\<lambda>kc. - snd kc) (Counter ws))"
    by (rule sorted_wrt_mono_rel [rotated]) (auto simp: ranked_before_def)
  then show ?thesis
    unfolding most_common_def by (rule sorted_wrt_take)
qed

lemma ranked_before_count: "ranked_before ws a b \<Longrightarrow> snd b \<le> snd a"
  by (auto simp: ranked_before_def)

lemma split_nonspace_Cons:
  assumes "\<not> isspace c"
  shows "split (c # s) = (c # takeWhile (\<lambda>x. \<not> isspace x) s) # split (dropWhile (\<lambda>x. \<not> isspace x) s)"
  by (subst split.simps) (simp add: assms)

lemma split_tokens:
  "w \<in> set (split s) \<Longrightarrow> w \<noteq> [] \<and> (\<forall>c \<in> set w. \<not> isspace c)"
proof (induction s rule: split.induct)
  case (1 s)
  show ?case
  proof (cases "dropWhile isspace s")
    case Nil
    then have "split s = []"
      by (subst split.simps) (simp only: list.case)
    with "1.prems" show ?thesis by simp
  next
    case (Cons x xs)
    let ?w = "takeWhile (\<lambda>x. \<not> isspace x) (x # xs)"
    have nx: "\<not> isspace x"
      using Cons hd_dropWhile [of isspace s] by auto
    have "split s = ?w # split (dropWhile (\<lambda>x. \<not> isspace x) (x # xs))"
      by (subst split.simps) (simp only: Cons list.case)
    with "1.prems" consider "w = ?w" | "w \<in> set (split (dropWhile (\<lambda>x. \<not> isspace x) (x # xs)))"
      by auto
    then show ?thesis
    proof cases
      case 1
      then show ?thesis
        using nx by (auto dest: set_takeWhileD)
    next
      case 2
      then show ?thesis
        by (rule "1.IH" [OF Cons])
    qed
  qed
qed

lemma concat_split: "concat (split s) = filter (\<lambda>c. \<not> isspace c) s"
proof (induction s rule: split.induct)
  case (1 s)
  have f: "filter (\<lambda>c. \<not> isspace c) s = filter (\<lambda>c. \<not> isspace c) (dropWhile isspace s)"
    by (induction s) auto
  show ?case
  proof (cases "dropWhile isspace s")
    case Nil
    then have "split s = []"
      by (subst split.simps) (simp only: list.case)
    with Nil f show ?thesis by simp
  next
    case (Cons x xs)
    let ?w = "takeWhile (\<lambda>x. \<not> isspace x) (x # xs)"
    let ?r = "dropWhile (\<lambda>x. \<not> isspace x) (x # xs)"
    have "split s = ?w # split ?r"
      by (subst split.simps) (simp only: Cons list.case)
    then have "concat (split s) = ?w @ filter (\<lambda>c. \<not> isspace c) ?r"
      using "1.IH" [OF Cons] by simp
    moreover have "filter (\<lambda>c. \<not> isspace c) ?w = ?w"
      unfolding filter_id_conv by (blast dest: set_takeWhileD)
    moreover have "filter (\<lambda>c. \<not> isspace c) (?w @ ?r) = filter (\<lambda>c. \<not> isspace c) (x # xs)"
      by (simp only: takeWhile_dropWhile_id)
    ultimately have "concat (split s) = filter (\<lambda>c. \<not> isspace c) (x # xs)"
      by (simp only: filter_append)
    then show ?thesis
      unfolding f Cons .
  qed
qed

lemma length_split_starts:
  "length (split s) = token_starts True s
   \<and> (\<forall>c. \<not> isspace c \<longrightarrow> length (split (c # s)) = Suc (token_starts False s))"
proof (induction s)
  case Nil
  show ?case
    by (simp add: split_Nil split_nonspace_Cons)
next
  case (Cons d s)
  show ?case
  proof (cases "isspace d")
    case True
    have "length (split (c # d # s)) = Suc (token_starts False (d # s))" if "\<not> isspace c" for c
    proof -
      have "split ([c] @ d # s) = split [c] @ split s"
        using True by (rule split_append_space)
      then show ?thesis
        using that True Cons by (simp add: split_nonspace_Cons split_Nil)
    qed
    with True Cons show ?thesis
      by (simp add: split_space_Cons)
  next
    case False
    have "length (split (c # d # s)) = Suc (token_starts False (d # s))" if "\<not> isspace c" for c
    proof -
      have "length (split (c # d # s)) = length (split (d # s))"
        using that False by (simp add: split_nonspace_Cons)
      then show ?thesis
        using False Cons by simp
    qed
    with False Cons show ?thesis
      by simp
  qed
qed

lemma length_split: "length (split s) = token_count s"
  by (simp add: token_count_def length_split_starts)

subsection \<open>A numeric abstract column\<close>

text \<open>
  When \<open>read_csv\<close> reads the abstract column as numbers, \<open>x.split()\<close> at line 23 of the
  script raises \<open>AttributeError\<close>.
\<close>

lemma load_data_numeric_abstract:
  "load_data numeric_pandas numeric_abstract_file = Inl AttributeError"
  by code_simp

subsection \<open>The errors of load_data\<close>









lemma load_data_offsets: "load_data offsets_pandas offsets_file = Inl ValueError"
  by code_simp

section \<open>The claims of the specification\<close>

text \<open>
  C1. In every record of a table that \<open>load_data\<close> returned the title is not null and
  not the empty string, and the year is an integer, the year of the parsed
  \<open>publish_time\<close>. The frame read from the file holds no empty string (an empty field
  is read as null), and a row of it whose title is null or whose \<open>publish_time\<close> is
  null or does not parse has no record in the table.
\<close>

theorem essential_fields:
  assumes "load_data P f = Inr df"
  shows "(\<forall>r \<in> set (rows df).
            \<not> isna (at r ''title'') \<and> at r ''title'' \<noteq> Str ''''
            \<and> (\<exists>t. at r ''publish_time'' = Date t \<and> at r ''year'' = Num (year_of t)))
       \<and> (\<exists>df0. read_csv P f = Inr df0
            \<and> (\<forall>r0 \<in> set (rows df0).
                  at r0 ''title'' \<noteq> Str ''''
                  \<and> (isna (at r0 ''title'') \<or> isna (at r0 ''publish_time'')
                       \<or> parse_datetime P (publish_times df0) (at r0 ''publish_time'') = None
                     \<longrightarrow> derive_row P (publish_times df0) r0 \<notin> set (rows df)))
            \<and> length (rows df) = length (filter (survives P (publish_times df0)) (rows df0)))"
proof -
  from load_data_Inr [OF assms] obtain df0 :: frame where r: "read_csv P f = Inr df0"
    and rows: "rows df = map (derive_row P (publish_times df0))
                           (filter (survives P (publish_times df0)) (rows df0))"
    by blast
  let ?col = "publish_times df0"
  have title: "\<not> isna (at r ''title'') \<and> at r ''title'' \<noteq> Str ''''" if "r \<in> set (rows df)" for r
  proof -
    from that obtain r0 where r0: "r0 \<in> set (rows df0)" "survives P ?col r0"
      and eq: "r = derive_row P ?col r0"
      unfolding rows by auto
    have "at r ''title'' = at r0 ''title''"
      unfolding eq by (simp add: at_derive_row)
    then show ?thesis
      using r0(2) read_csv_no_empty_string [OF r r0(1), of "''title''"]
      by (simp add: survives_def)
  qed
  have excl: "derive_row P ?col r0 \<notin> set (rows df)"
    if "isna (at r0 ''title'') \<or> isna (at r0 ''publish_time'')
          \<or> parse_datetime P ?col (at r0 ''publish_time'') = None" for r0
  proof
    assume "derive_row P ?col r0 \<in> set (rows df)"
    then obtain r1 where "survives P ?col r1" and "derive_row P ?col r0 = derive_row P ?col r1"
      unfolding rows by auto
    then have "survives P ?col r0"
      using survives_derive_row [of P ?col r0] survives_derive_row [of P ?col r1] by simp
    with that show False
      by (auto simp: survives_def)
  qed
  have "\<forall>r \<in> set (rows df).
            \<not> isna (at r ''title'') \<and> at r ''title'' \<noteq> Str ''''
            \<and> (\<exists>t. at r ''publish_time'' = Date t \<and> at r ''year'' = Num (year_of t))"
    using title load_data_year [OF assms] by blast
  moreover have "\<forall>r0 \<in> set (rows df0).
                  at r0 ''title'' \<noteq> Str ''''
                  \<and> (isna (at r0 ''title'') \<or> isna (at r0 ''publish_time'')
                       \<or> parse_datetime P ?col (at r0 ''publish_time'') = None
                     \<longrightarrow> derive_row P ?col r0 \<notin> set (rows df))"
    using excl read_csv_no_empty_string [OF r] by blast
  moreover have "length (rows df) = length (filter (survives P ?col) (rows df0))"
    unfolding rows by simp
  ultimately show ?thesis
    using r by blast
qed

theorem essential_fields_witness:
  "load_data sample_pandas sample_file = Inr sample_table
   \<and> list_all (\<lambda>r. \<not> isna (at r ''title'') \<and> at r ''title'' \<noteq> Str ''''
                   \<and> (\<exists>t. at r ''publish_time'' = Date t \<and> at r ''year'' = Num (year_of t)))
        (rows sample_table)
   \<and> length (rows sample_table) = 3"
proof -
  have h: "load_data sample_pandas sample_file = Inr sample_table"
    by code_simp
  have "length (rows sample_table) = 3"
    by code_simp
  then show ?thesis
    using h essential_fields [OF h] unfolding list_all_iff by blast
qed




text \<open>
  C3. On a table with a title column that holds text or nulls, lines 122 and 123
  compute what the specification words: \<open>all_words\<close> is the token stream of the titles
  with a null as the empty string, \<open>most_common n\<close> of its \<open>Counter\<close> is
  \<open>top_words_spec\<close> for every \<open>n\<close>, and \<open>common_words\<close> is the case \<open>n = 20\<close>. A table
  without rows has the empty ranking, and when \<open>n\<close> is at least the number of
  distinct tokens the ranking holds each of them once and nothing else.
\<close>

theorem top_words_refines:
  assumes "''title'' \<in> set (columns df)"
    and "list_all (\<lambda>r. textual (at r ''title'')) (rows df)"
  shows "all_words df = Inr (token_stream df ''title'')
       \<and> most_common n (Counter (token_stream df ''title'')) = top_words_spec df ''title'' n
       \<and> common_words df = Inr (top_words_spec df ''title'' 20)
       \<and> (rows df = [] \<longrightarrow> top_words_spec df ''title'' n = [])
       \<and> (card (set (token_stream df ''title'')) \<le> n \<longrightarrow>
            length (top_words_spec df ''title'' n) = card (set (token_stream df ''title''))
            \<and> fst ` set (top_words_spec df ''title'' n) = set (token_stream df ''title''))"
proof -
  let ?ts = "token_stream df ''title''"
  have 1: "all_words df = Inr ?ts"
    using assms by (rule all_words_textual)
  have 2: "most_common n (Counter ?ts) = top_words_spec df ''title'' n" for n
    by (simp add: most_common_def top_words_spec_def Let_def Counter_counts)
  have 3: "common_words df = Inr (top_words_spec df ''title'' 20)"
    by (simp add: common_words_def 1 2)
  have 4: "top_words_spec df ''title'' n = []" if "rows df = []"
  proof -
    have "?ts = []"
      using that by (simp add: token_stream_def lower_def split_Nil)
    then show ?thesis
      by (simp add: top_words_spec_def)
  qed
  have 5: "length (top_words_spec df ''title'' n) = card (set ?ts)
            \<and> fst ` set (top_words_spec df ''title'' n) = set ?ts" if "card (set ?ts) \<le> n"
  proof -
    have "length (sort_key (\<lambda>kc. - snd kc) (Counter ?ts)) \<le> n"
      using that by (simp add: length_Counter)
    then have "most_common n (Counter ?ts) = sort_key (\<lambda>kc. - snd kc) (Counter ?ts)"
      by (simp add: most_common_def)
    moreover have "fst ` set (Counter ?ts) = set ?ts"
      using keys_Counter [of ?ts] set_distinct_tokens [of ?ts] by (metis set_map)
    ultimately show ?thesis
      unfolding 2 [symmetric] by (simp add: length_Counter)
  qed
  from 1 2 3 4 5 show ?thesis by blast
qed

theorem top_words_refines_witness:
  "''title'' \<in> set (columns sample_table)
   \<and> list_all (\<lambda>r. textual (at r ''title'')) (rows sample_table)
   \<and> common_words sample_table
       = Inr [(''covid'', 2), (''vaccine'', 2), (''study'', 1), (''trial'', 1)]
   \<and> most_common 2 (Counter (token_stream sample_table ''title''))
       = [(''covid'', 2), (''vaccine'', 2)]
   \<and> card (set (token_stream sample_table ''title'')) \<le> 20
   \<and> length (top_words_spec sample_table ''title'' 20) = 4
   \<and> rows (sample_table\<lparr>rows := []\<rparr>) = []
   \<and> common_words (sample_table\<lparr>rows := []\<rparr>) = Inr []"
proof -
  have c: "''title'' \<in> set (columns sample_table)"
    by code_simp
  have t: "list_all (\<lambda>r. textual (at r ''title'')) (rows sample_table)"
    by code_simp
  have s20: "top_words_spec sample_table ''title'' 20
               = [(''covid'', 2), (''vaccine'', 2), (''study'', 1), (''trial'', 1)]"
    by code_simp
  have s2: "top_words_spec sample_table ''title'' 2 = [(''covid'', 2), (''vaccine'', 2)]"
    by code_simp
  have k: "card (set (token_stream sample_table ''title'')) \<le> 20"
    by code_simp
  have c0: "''title'' \<in> set (columns (sample_table\<lparr>rows := []\<rparr>))"
    using c by simp
  have t0: "list_all (\<lambda>r. textual (at r ''title'')) (rows (sample_table\<lparr>rows := []\<rparr>))"
    by simp
  note a = top_words_refines [OF c t, of 2]
  note b = top_words_refines [OF c t, of 20]
  note e = top_words_refines [OF c0 t0, of 20]
  have "common_words (sample_table\<lparr>rows := []\<rparr>) = Inr []"
    using e by simp
  moreover have "length (top_words_spec sample_table ''title'' 20) = 4"
    using s20 by simp
  ultimately show ?thesis
    using c t k a b s20 s2 by simp
qed

text \<open>
  C4. A ranking that lines 122 and 123 return is sorted by count, the highest first:
  no entry has a higher count than the entry before it. Of two entries of equal count,
  the one whose token appears first in the token stream comes first.
\<close>

theorem ranking_order:
  assumes "all_words df = Inr ws"
  shows "common_words df = Inr (most_common 20 (Counter ws))
       \<and> sorted_wrt (ranked_before ws) (most_common n (Counter ws))
       \<and> (\<forall>i. Suc i < length (most_common n (Counter ws)) \<longrightarrow>
              snd (most_common n (Counter ws) ! Suc i) \<le> snd (most_common n (Counter ws) ! i))
       \<and> (\<forall>i j. i < j \<and> j < length (most_common n (Counter ws))
                \<and> snd (most_common n (Counter ws) ! i) = snd (most_common n (Counter ws) ! j) \<longrightarrow>
              first_index ws (fst (most_common n (Counter ws) ! i))
                < first_index ws (fst (most_common n (Counter ws) ! j)))"
proof -
  let ?r = "most_common n (Counter ws)"
  have 1: "common_words df = Inr (most_common 20 (Counter ws))"
    using assms by (simp add: common_words_def)
  have 2: "sorted_wrt (ranked_before ws) ?r"
    by (rule most_common_ranked)
  have rb: "ranked_before ws (?r ! i) (?r ! j)" if "i < j" "j < length ?r" for i j
    using 2 that by (simp add: sorted_wrt_iff_nth_less)
  have 3: "snd (?r ! Suc i) \<le> snd (?r ! i)" if "Suc i < length ?r" for i
    using rb [of i "Suc i"] that by (simp add: ranked_before_count)
  have 4: "first_index ws (fst (?r ! i)) < first_index ws (fst (?r ! j))"
    if "i < j \<and> j < length ?r \<and> snd (?r ! i) = snd (?r ! j)" for i j
    using rb [of i j] that by (simp add: ranked_before_def)
  from 1 2 3 4 show ?thesis by blast
qed

theorem ranking_order_witness:
  "all_words sample_table = Inr [''covid'', ''study'', ''covid'', ''vaccine'', ''vaccine'', ''trial'']
   \<and> common_words sample_table
       = Inr [(''covid'', 2), (''vaccine'', 2), (''study'', 1), (''trial'', 1)]
   \<and> sorted_wrt (ranked_before [''covid'', ''study'', ''covid'', ''vaccine'', ''vaccine'', ''trial''])
        [(''covid'', 2), (''vaccine'', 2), (''study'', 1), (''trial'', 1)]"
proof -
  have h: "all_words sample_table = Inr [''covid'', ''study'', ''covid'', ''vaccine'', ''vaccine'', ''trial'']"
    by code_simp
  have m: "most_common 20 (Counter [''covid'', ''study'', ''covid'', ''vaccine'', ''vaccine'', ''trial''])
             = [(''covid'', 2), (''vaccine'', 2), (''study'', 1), (''trial'', 1)]"
    by code_simp
  show ?thesis
    using h m ranking_order [OF h, of 20] by simp
qed

text \<open>
  C5. On a table that \<open>load_data\<close> returned, the year filter returns, with the columns
  unchanged, exactly the records whose year lies between \<open>a\<close> and \<open>b\<close>: each of them
  once, in the order of the table. The cleaning keeps the order of the file: the rows of
  the table are the surviving rows of the frame read from the file, in that order.
\<close>

theorem filter_by_year_exact:
  assumes "load_data P f = Inr df"
  shows "(\<exists>d. df_filtered (a, b) df = Inr d \<and> columns d = columns df
              \<and> rows d = filter (year_between a b) (rows df))
       \<and> (\<exists>df0. read_csv P f = Inr df0
              \<and> rows df = map (derive_row P (publish_times df0))
                             (filter (survives P (publish_times df0)) (rows df0)))"
proof
  have "year_column df"
    using assms by (rule load_data_year_column)
  then have "df_filtered (a, b) df = Inr (df\<lparr>rows := filter (year_between a b) (rows df)\<rparr>)"
    by (rule df_filtered_year_column)
  then show "\<exists>d. df_filtered (a, b) df = Inr d \<and> columns d = columns df
              \<and> rows d = filter (year_between a b) (rows df)"
    by simp
  show "\<exists>df0. read_csv P f = Inr df0
              \<and> rows df = map (derive_row P (publish_times df0))
                             (filter (survives P (publish_times df0)) (rows df0))"
    using load_data_Inr [OF assms] by blast
qed

theorem filter_by_year_exact_witness:
  "load_data sample_pandas sample_file = Inr sample_table
   \<and> (\<exists>d. df_filtered (2020, 2020) sample_table = Inr d
          \<and> rows d = [rows sample_table ! 0, rows sample_table ! 2])"
proof -
  have h: "load_data sample_pandas sample_file = Inr sample_table"
    by code_simp
  have "filter (year_between 2020 2020) (rows sample_table)
          = [rows sample_table ! 0, rows sample_table ! 2]"
    by code_simp
  then show ?thesis
    using h filter_by_year_exact [OF h, of 2020 2020] by auto
qed

text \<open>
  C6. When \<open>n\<close> is at least the number of distinct tokens, the counts of the ranking
  add up to the number of tokens of the token stream.
\<close>

theorem ranking_total:
  assumes "all_words df = Inr ws" and "card (set ws) \<le> n"
  shows "ws = token_stream df ''title''
       \<and> sum_list (map snd (most_common n (Counter ws))) = int (length ws)"
proof -
  have "length (sort_key (\<lambda>kc. - snd kc) (Counter ws)) \<le> n"
    using assms(2) by (simp add: length_Counter)
  then have "most_common n (Counter ws) = sort_key (\<lambda>kc. - snd kc) (Counter ws)"
    by (simp add: most_common_def)
  then have "sum_list (map snd (most_common n (Counter ws))) = int (length ws)"
    by (simp add: sum_list_sort_key sum_list_Counter)
  then show ?thesis
    using all_words_Inr(3) [OF assms(1)] by simp
qed

theorem ranking_total_witness:
  "all_words sample_table = Inr [''covid'', ''study'', ''covid'', ''vaccine'', ''vaccine'', ''trial'']
   \<and> card (set [''covid'', ''study'', ''covid'', ''vaccine'', ''vaccine'', ''trial'']) \<le> 20
   \<and> sum_list (map snd (most_common 20
          (Counter [''covid'', ''study'', ''covid'', ''vaccine'', ''vaccine'', ''trial'']))) = 6"
proof -
  have h: "all_words sample_table = Inr [''covid'', ''study'', ''covid'', ''vaccine'', ''vaccine'', ''trial'']"
    by code_simp
  have k: "card (set [''covid'', ''study'', ''covid'', ''vaccine'', ''vaccine'', ''trial'']) \<le> 20"
    by code_simp
  note ranking_total [OF h k, THEN conjunct2]
  with h k show ?thesis
    by simp
qed

text \<open>
  C7. \<open>load_data\<close> gives every row of the frame read from the file, at the same position,
  the word count of its abstract: the number of words that \<open>split\<close> cuts the abstract
  into, which is the number of its whitespace-separated tokens, a missing abstract
  counting as the empty string, hence 0. The count is an integer that is not negative,
  and the records of the returned table carry it.
\<close>

theorem derived_word_count:
  assumes "load_data P f = Inr df"
  shows "\<exists>df0 df3. read_csv P f = Inr df0 \<and> derive P df0 = Inr df3
           \<and> list_all2 (\<lambda>r0 r.
                 at r ''abstract_word_count'' = Num (int (length (split (field_text (at r0 ''abstract'')))))
                 \<and> length (split (field_text (at r0 ''abstract''))) = token_count (field_text (at r0 ''abstract''))
                 \<and> (isna (at r0 ''abstract'') \<longrightarrow> at r ''abstract_word_count'' = Num 0)
                 \<and> (\<exists>n. at r ''abstract_word_count'' = Num n \<and> 0 \<le> n))
               (rows df0) (rows df3)
           \<and> (\<forall>r \<in> set (rows df).
                 at r ''abstract_word_count'' = Num (int (length (split (field_text (at r ''abstract''))))))"
proof -
  from load_data_steps [OF assms] obtain df0 df3 where r: "read_csv P f = Inr df0"
    and d: "derive P df0 = Inr df3" and dn: "dropna [''title'', ''publish_time''] df3 = Inr df"
    by blast
  let ?g = "derive_row P (map (\<lambda>r. at r ''publish_time'') (rows df0))"
  have rows3: "rows df3 = map ?g (rows df0)"
    using d by (rule derive_Inr(4))
  have na: "field_text v = []" if "isna v" for v
    using that by (auto simp: isna_def field_text_def)
  have 1: "list_all2 (\<lambda>r0 r.
                 at r ''abstract_word_count'' = Num (int (length (split (field_text (at r0 ''abstract'')))))
                 \<and> length (split (field_text (at r0 ''abstract''))) = token_count (field_text (at r0 ''abstract''))
                 \<and> (isna (at r0 ''abstract'') \<longrightarrow> at r ''abstract_word_count'' = Num 0)
                 \<and> (\<exists>n. at r ''abstract_word_count'' = Num n \<and> 0 \<le> n))
               (rows df0) (rows df3)"
    unfolding rows3 list_all2_map2
    by (rule list_all2_refl) (simp add: at_derive_row word_count_def na split_Nil length_split)
  have "set (rows df) \<subseteq> set (rows df3)"
    using dn by (auto simp: dropna_Inr)
  then have 2: "\<forall>r \<in> set (rows df).
                 at r ''abstract_word_count'' = Num (int (length (split (field_text (at r ''abstract'')))))"
    unfolding rows3 by (auto simp: at_derive_row word_count_def)
  from r d 1 2 show ?thesis by blast
qed

theorem derived_word_count_witness:
  "load_data sample_pandas sample_file = Inr sample_table
   \<and> map (\<lambda>r. at r ''abstract_word_count'') (rows sample_table) = [Num 3, Num 0, Num 2]
   \<and> list_all (\<lambda>r. at r ''abstract_word_count''
                      = Num (int (length (split (field_text (at r ''abstract''))))))
        (rows sample_table)"
proof -
  have h: "load_data sample_pandas sample_file = Inr sample_table"
    by code_simp
  have "map (\<lambda>r. at r ''abstract_word_count'') (rows sample_table) = [Num 3, Num 0, Num 2]"
    by code_simp
  then show ?thesis
    using h derived_word_count [OF h] unfolding list_all_iff by blast
qed

text \<open>
  C8. Filtering a table that \<open>load_data\<close> returned a second time with the same range
  gives the same table again.
\<close>

theorem filter_by_year_idempotent:
  assumes "load_data P f = Inr df"
  shows "\<exists>d. df_filtered (a, b) df = Inr d \<and> df_filtered (a, b) d = Inr d"
proof -
  let ?d = "df\<lparr>rows := filter (year_between a b) (rows df)\<rparr>"
  have yc: "year_column df"
    using assms by (rule load_data_year_column)
  then have 1: "df_filtered (a, b) df = Inr ?d"
    by (rule df_filtered_year_column)
  have "year_column ?d"
    using yc by (rule year_column_filter)
  then have "df_filtered (a, b) ?d = Inr (?d\<lparr>rows := filter (year_between a b) (rows ?d)\<rparr>)"
    by (rule df_filtered_year_column)
  then have "df_filtered (a, b) ?d = Inr ?d"
    by simp
  with 1 show ?thesis by blast
qed

theorem filter_by_year_idempotent_witness:
  "load_data sample_pandas sample_file = Inr sample_table
   \<and> (\<exists>d. df_filtered (2019, 2019) sample_table = Inr d \<and> df_filtered (2019, 2019) d = Inr d)"
proof -
  have h: "load_data sample_pandas sample_file = Inr sample_table"
    by code_simp
  show ?thesis
    using h filter_by_year_idempotent [OF h, of 2019 2019] by simp
qed

text \<open>
  C9. When the range lies below every year of the table, or above every year of it, the
  filter returns the table without rows, and no error.
\<close>

theorem filter_by_year_outside_span:
  assumes "load_data P f = Inr df"
    and "list_all (\<lambda>y. b < y) (years df) \<or> list_all (\<lambda>y. y < a) (years df)"
  shows "\<exists>d. df_filtered (a, b) df = Inr d \<and> columns d = columns df \<and> rows d = []"
proof -
  have "year_column df"
    using assms(1) by (rule load_data_year_column)
  then have 1: "df_filtered (a, b) df = Inr (df\<lparr>rows := filter (year_between a b) (rows df)\<rparr>)"
    by (rule df_filtered_year_column)
  have "\<not> year_between a b r" if "r \<in> set (rows df)" for r
  proof
    assume "year_between a b r"
    then obtain y where y: "at r ''year'' = Num y" and "a \<le> y" and "y \<le> b"
      by (auto simp: year_between_def split: cell.splits)
    moreover have "y \<in> set (years df)"
      using that y by (rule years_member)
    ultimately show False
      using assms(2) by (auto simp: list_all_iff)
  qed
  then have "filter (year_between a b) (rows df) = []"
    by (simp add: filter_empty_conv)
  with 1 show ?thesis by simp
qed

theorem filter_by_year_outside_span_witness:
  "load_data sample_pandas sample_file = Inr sample_table
   \<and> (list_all (\<lambda>y. 2040 < y) (years sample_table) \<or> list_all (\<lambda>y. y < 2030) (years sample_table))
   \<and> (\<exists>d. df_filtered (2030, 2040) sample_table = Inr d \<and> rows d = [])"
proof -
  have h: "load_data sample_pandas sample_file = Inr sample_table"
    by code_simp
  have o: "list_all (\<lambda>y. 2040 < y) (years sample_table) \<or> list_all (\<lambda>y. y < 2030) (years sample_table)"
    by code_simp
  show ?thesis
    using h o filter_by_year_outside_span [OF h o] by auto
qed

text \<open>
  C10. The records of a table that \<open>load_data\<close> returned are, in the order of the file,
  rows of the frame read from it, each changed in three columns only: \<open>publish_time\<close>
  holds the parsed date, \<open>year\<close> and \<open>abstract_word_count\<close> are set. Every other
  column of the row, so title, authors, journal, abstract and source, keeps its value,
  and the record has no other column than the row and these three.
\<close>

theorem load_data_frame:
  assumes "load_data P f = Inr df"
  shows "\<exists>df0 rs. read_csv P f = Inr df0 \<and> subseq rs (rows df0)
           \<and> list_all2 (\<lambda>r0 r.
                 (\<forall>c. c \<notin> {''publish_time'', ''year'', ''abstract_word_count''} \<longrightarrow> at r c = at r0 c)
                 \<and> list_all (\<lambda>c. at r c = at r0 c)
                      [''title'', ''authors'', ''journal'', ''abstract'', ''source'']
                 \<and> (\<exists>t. parse_datetime P (publish_times df0) (at r0 ''publish_time'') = Some t
                        \<and> at r ''publish_time'' = Date t)
                 \<and> fst ` set r = fst ` set r0 \<union> {''publish_time'', ''year'', ''abstract_word_count''})
               rs (rows df)"
proof -
  from load_data_Inr [OF assms] obtain df0 :: frame where r: "read_csv P f = Inr df0"
    and rows: "rows df = map (derive_row P (publish_times df0))
                           (filter (survives P (publish_times df0)) (rows df0))"
    by blast
  let ?col = "publish_times df0"
  let ?rs = "filter (survives P ?col) (rows df0)"
  have "subseq ?rs (rows df0)"
    by simp
  moreover have "list_all2 (\<lambda>r0 r.
                 (\<forall>c. c \<notin> {''publish_time'', ''year'', ''abstract_word_count''} \<longrightarrow> at r c = at r0 c)
                 \<and> list_all (\<lambda>c. at r c = at r0 c)
                      [''title'', ''authors'', ''journal'', ''abstract'', ''source'']
                 \<and> (\<exists>t. parse_datetime P ?col (at r0 ''publish_time'') = Some t
                        \<and> at r ''publish_time'' = Date t)
                 \<and> fst ` set r = fst ` set r0 \<union> {''publish_time'', ''year'', ''abstract_word_count''})
               ?rs (rows df)"
    unfolding rows list_all2_map2 list_all2_same
  proof (rule ballI)
    fix r0 assume "r0 \<in> set ?rs"
    then have s: "survives P ?col r0" by simp
    then obtain t where t: "parse_datetime P ?col (at r0 ''publish_time'') = Some t"
      by (auto simp: survives_def)
    with s have "coerce P ?col (at r0 ''publish_time'') = Date t"
      by (simp add: survives_def coerce_def)
    with t show "(\<forall>c. c \<notin> {''publish_time'', ''year'', ''abstract_word_count''}
                   \<longrightarrow> at (derive_row P ?col r0) c = at r0 c)
        \<and> list_all (\<lambda>c. at (derive_row P ?col r0) c = at r0 c)
             [''title'', ''authors'', ''journal'', ''abstract'', ''source'']
        \<and> (\<exists>t. parse_datetime P ?col (at r0 ''publish_time'') = Some t
               \<and> at (derive_row P ?col r0) ''publish_time'' = Date t)
        \<and> fst ` set (derive_row P ?col r0)
            = fst ` set r0 \<union> {''publish_time'', ''year'', ''abstract_word_count''}"
      by (simp add: at_derive_row keys_derive_row)
  qed
  ultimately show ?thesis
    using r by blast
qed

theorem load_data_frame_witness:
  "load_data sample_pandas sample_file = Inr sample_table
   \<and> map (\<lambda>r. [at r ''title'', at r ''journal'', at r ''abstract'']) (rows sample_table)
       = [[Str ''Covid study'', Str ''Lancet'', Str ''a  b c''],
          [Str ''covid Vaccine'', Str ''BMJ'', NaN],
          [Str ''Vaccine trial'', NaN, Str ''one two'']]
   \<and> (\<exists>df0 rs. read_csv sample_pandas sample_file = Inr df0 \<and> subseq rs (rows df0)
          \<and> list_all2 (\<lambda>r0 r. list_all (\<lambda>c. at r c = at r0 c)
                                  [''title'', ''authors'', ''journal'', ''abstract'', ''source''])
               rs (rows sample_table))"
proof -
  have h: "load_data sample_pandas sample_file = Inr sample_table"
    by code_simp
  have v: "map (\<lambda>r. [at r ''title'', at r ''journal'', at r ''abstract'']) (rows sample_table)
       = [[Str ''Covid study'', Str ''Lancet'', Str ''a  b c''],
          [Str ''covid Vaccine'', Str ''BMJ'', NaN],
          [Str ''Vaccine trial'', NaN, Str ''one two'']]"
    by code_simp
  from load_data_frame [OF h] obtain df0 :: frame and rs where
    "read_csv sample_pandas sample_file = Inr df0" "subseq rs (rows df0)"
    "list_all2 (\<lambda>r0 r. list_all (\<lambda>c. at r c = at r0 c)
                                  [''title'', ''authors'', ''journal'', ''abstract'', ''source''])
               rs (rows sample_table)"
    by (blast intro: list_all2_mono)
  with h v show ?thesis by blast
qed

end
